theory Spec2Isabelle
  imports Complex_Main "HOL-Library.Multiset" "HOL-Library.Code_Target_Nat"
begin

section \<open>Constants of \<^verbatim>\<open>wordle.py\<close>\<close>

definition GRID_ROWS :: nat where
  "GRID_ROWS = 6"

definition GRID_COLS :: nat where
  "GRID_COLS = 5"

definition ANIM_DELAY :: nat where
  "ANIM_DELAY = 150"

definition MIN_ZIPF :: real where
  "MIN_ZIPF = 3"

definition WORDS_SAMPLE :: nat where
  "WORDS_SAMPLE = 100000"

text \<open>The three tile colours the code writes into the grid.\<close>

definition gray :: string where
  "gray = ''#3a3a3c''"

definition green :: string where
  "green = ''#538d4e''"

definition yellow :: string where
  "yellow = ''#b59f3b''"

section \<open>Strings\<close>

text \<open>
  A Python \<^verbatim>\<open>str\<close> is a sequence of Unicode code points. It is modelled as the list of
  their numbers, the value \<^verbatim>\<open>ord\<close> gives for each character. The string literals of the
  source are ASCII; \<open>lit\<close> turns such a literal into its code points.
\<close>

type_synonym ustr = "nat list"

definition lit :: "string \<Rightarrow> ustr" where
  "lit s = map of_char s"

text \<open>
  The methods \<^verbatim>\<open>str.lower\<close>, \<^verbatim>\<open>str.upper\<close> and \<^verbatim>\<open>str.isalpha\<close> follow the Unicode
  character database, which is no part of the repository. They are parameters of the
  model, the three fields of a record \<open>U\<close>, and nothing is assumed of them: \<^verbatim>\<open>str.lower\<close>
  need not keep the length of a string (the lower case of the one character U+0130 has
  two), and a word with letters outside ASCII can be alphabetic.
\<close>

record unicode =
  lower :: "ustr \<Rightarrow> ustr"
  upper :: "ustr \<Rightarrow> ustr"
  isalpha :: "ustr \<Rightarrow> bool"

text \<open>\<^verbatim>\<open>str(n)\<close> of a natural number: its decimal digits.\<close>

fun str :: "nat \<Rightarrow> ustr" where
  "str n = (if n < 10 then [48 + n] else str (n div 10) @ [48 + n mod 10])"

declare str.simps [simp del]

section \<open>Feedback for a guess\<close>

text \<open>
  Every \<^verbatim>\<open>IndexError\<close> and \<^verbatim>\<open>ValueError\<close> the list operations of the code can raise
  is a value of the model.
\<close>

datatype error = IndexError | ValueError

text \<open>
  \<^verbatim>\<open>xs.index(x)\<close>: the first position of \<open>x\<close>, and \<^verbatim>\<open>ValueError\<close> when there is
  none.
\<close>

fun index :: "'a list \<Rightarrow> 'a \<Rightarrow> error + nat" where
  "index [] x = Inl ValueError"
| "index (y # ys) x =
     (if y = x then Inr 0
      else case index ys x of Inl e \<Rightarrow> Inl e | Inr n \<Rightarrow> Inr (Suc n))"

text \<open>
  The first loop of \<^verbatim>\<open>_feedback\<close>, from position \<open>i\<close> on.
  \<^verbatim>\<open>
  for i, ch in enumerate(guess):
      if ch == self.secret[i]:
          fb[i] = '#538d4e'
          secret_chars[i] = None
  \<close>
  \<open>secret_chars\<close> is a list of optional characters, \<open>None\<close> where a letter has been
  used up. Reading \<^verbatim>\<open>self.secret[i]\<close> and writing \<^verbatim>\<open>fb[i]\<close> past the end raise.
\<close>

fun pass1 :: "ustr \<Rightarrow> nat \<Rightarrow> ustr \<Rightarrow> string list \<Rightarrow> nat option list
    \<Rightarrow> error + (string list \<times> nat option list)" where
  "pass1 secret i [] fb secret_chars = Inr (fb, secret_chars)"
| "pass1 secret i (ch # rest) fb secret_chars =
     (if length secret \<le> i then Inl IndexError
      else if ch = secret ! i then
        (if length fb \<le> i then Inl IndexError
         else pass1 secret (Suc i) rest (fb[i := green]) (secret_chars[i := None]))
      else pass1 secret (Suc i) rest fb secret_chars)"

text \<open>
  The second loop, from position \<open>i\<close> on.
  \<^verbatim>\<open>
  for i, ch in enumerate(guess):
      if fb[i] == '#3a3a3c' and ch in secret_chars:
          fb[i] = '#b59f3b'
          secret_chars[secret_chars.index(ch)] = None
  \<close>
\<close>

fun pass2 :: "nat \<Rightarrow> ustr \<Rightarrow> string list \<Rightarrow> nat option list \<Rightarrow> error + string list" where
  "pass2 i [] fb secret_chars = Inr fb"
| "pass2 i (ch # rest) fb secret_chars =
     (if length fb \<le> i then Inl IndexError
      else if fb ! i = gray \<and> Some ch \<in> set secret_chars then
        (case index secret_chars (Some ch) of
           Inl e \<Rightarrow> Inl e
         | Inr k \<Rightarrow> pass2 (Suc i) rest (fb[i := yellow]) (secret_chars[k := None]))
      else pass2 (Suc i) rest fb secret_chars)"

text \<open>
  \<^verbatim>\<open>_feedback\<close>, with \<^verbatim>\<open>self.secret\<close> as its first argument: \<open>fb\<close> starts as
  \<open>GRID_COLS\<close> gray entries, whatever the length of the words.
\<close>

definition feedback :: "ustr \<Rightarrow> ustr \<Rightarrow> error + string list" where
  "feedback secret guess =
     (case pass1 secret 0 guess (replicate GRID_COLS gray) (map Some secret) of
        Inl e \<Rightarrow> Inl e
      | Inr (fb, secret_chars) \<Rightarrow> pass2 0 guess fb secret_chars)"

text \<open>The verdict a colour stands for.\<close>

datatype verdict = Correct | Present | Absent

definition verdict_of :: "string \<Rightarrow> verdict" where
  "verdict_of col = (if col = green then Correct else if col = yellow then Present else Absent)"

section \<open>The state of the game\<close>

text \<open>
  The attributes of \<^verbatim>\<open>WordleGUI\<close> and the widget contents the game logic reads and
  writes. \<open>tiles\<close> holds the fill colour of each tile's rectangle, row by row. \<open>now\<close>
  is the clock of the event loop, in milliseconds. \<open>pending\<close> holds the callbacks handed
  to \<^verbatim>\<open>self.after\<close> that have not run yet, each with the time at which it is due, in the
  order of the calls. The position of the window, which only \<^verbatim>\<open>_shake\<close> reads and
  writes, the keyboard focus and the letters drawn on the tiles are not part of the model.
\<close>

datatype widget_state = Normal | Disabled

text \<open>
  The callbacks the code schedules. \<^verbatim>\<open>_submit_guess\<close> schedules
  \<^verbatim>\<open>lambda i=i, col=col: self.canvas.itemconfigure(self.tiles[self.current_row][i]['rect'], fill=col)\<close>
  and \<^verbatim>\<open>lambda: self._after_guess(guess)\<close>; \<^verbatim>\<open>_shake\<close> schedules
  \<^verbatim>\<open>lambda: self.geometry(f"+{x}+{y}")\<close>, which puts the window back.
\<close>

datatype callback = Paint nat string | AfterGuess ustr | Geometry

record game =
  words :: "ustr list"
  word_set :: "ustr set"
  secret :: ustr
  current_row :: nat
  message :: ustr
  entry_text :: ustr
  entry_state :: widget_state
  tiles :: "string list list"
  now :: nat
  pending :: "(nat \<times> callback) list"

section \<open>Loading the words and starting a game\<close>

text \<open>
  \<^verbatim>\<open>load_words\<close>. The two functions of the \<^verbatim>\<open>wordfreq\<close> package are parameters:
  \<open>top_n_list n\<close> stands for \<^verbatim>\<open>top_n_list("en", n)\<close> and \<open>zipf_frequency w\<close> for
  \<^verbatim>\<open>zipf_frequency(w, "en")\<close>, a float read as the real number it denotes. The
  method stores the set in \<^verbatim>\<open>self.word_set\<close> and returns the list.
\<close>

definition load_words :: "unicode \<Rightarrow> (nat \<Rightarrow> ustr list) \<Rightarrow> (ustr \<Rightarrow> real) \<Rightarrow> game
    \<Rightarrow> ustr list \<times> game" where
  "load_words U top_n_list zipf_frequency g =
     (let top_words = top_n_list WORDS_SAMPLE;
          ws = map (lower U)
                 (filter (\<lambda>w. length w = 5 \<and> isalpha U w \<and> MIN_ZIPF \<le> zipf_frequency w)
                    top_words)
      in (ws, g\<lparr>word_set := set ws\<rparr>))"

text \<open>
  \<^verbatim>\<open>_create_widgets\<close>: a grid of \<open>GRID_ROWS\<close> rows of \<open>GRID_COLS\<close> gray tiles, an
  empty entry that accepts input, an empty message.
\<close>

definition create_widgets :: "game \<Rightarrow> game" where
  "create_widgets g =
     g\<lparr>tiles := replicate GRID_ROWS (replicate GRID_COLS gray),
       entry_text := [], entry_state := Normal, message := []\<rparr>"

text \<open>
  \<^verbatim>\<open>_start_game\<close>. \<open>k\<close> is the position \<^verbatim>\<open>random.choice(self.words)\<close> draws, always
  below the length of the list; on an empty list \<^verbatim>\<open>random.choice\<close> raises
  \<^verbatim>\<open>IndexError\<close>. The grid always has the shape \<^verbatim>\<open>_create_widgets\<close> gave it, so
  the two loops over it make every tile gray. The method cancels no callback: what is
  pending stays pending.
\<close>

definition start_game :: "nat \<Rightarrow> game \<Rightarrow> error + game" where
  "start_game k g =
     (if length (words g) \<le> k then Inl IndexError
      else Inr (g\<lparr>secret := words g ! k, current_row := 0, message := [],
                  entry_state := Normal, entry_text := [],
                  tiles := replicate GRID_ROWS (replicate GRID_COLS gray)\<rparr>))"

text \<open>
  The state before \<^verbatim>\<open>__init__\<close> has set anything, with the clock at zero and no
  callback pending.
\<close>

definition blank :: game where
  "blank = \<lparr>words = [], word_set = {}, secret = [], current_row = 0, message = [],
            entry_text = [], entry_state = Normal, tiles = [], now = 0, pending = []\<rparr>"

text \<open>\<^verbatim>\<open>__init__\<close>: load the words, build the widgets, start the first game.\<close>

definition init :: "unicode \<Rightarrow> (nat \<Rightarrow> ustr list) \<Rightarrow> (ustr \<Rightarrow> real) \<Rightarrow> nat \<Rightarrow> error + game" where
  "init U top_n_list zipf_frequency k =
     (case load_words U top_n_list zipf_frequency blank of
        (ws, g) \<Rightarrow> start_game k (create_widgets (g\<lparr>words := ws\<rparr>)))"

section \<open>Callbacks and the event loop\<close>

text \<open>\<^verbatim>\<open>self.after(ms, cb)\<close>: the callback is due \<open>ms\<close> milliseconds from now.\<close>

definition after :: "nat \<Rightarrow> callback \<Rightarrow> game \<Rightarrow> game" where
  "after ms cb g = g\<lparr>pending := pending g @ [(now g + ms, cb)]\<rparr>"

text \<open>\<^verbatim>\<open>_after_guess\<close>.\<close>

definition after_guess :: "unicode \<Rightarrow> ustr \<Rightarrow> game \<Rightarrow> game" where
  "after_guess U guess g0 =
     (let g = g0\<lparr>message := []\<rparr> in
      if guess = secret g then
        g\<lparr>message := lit ''You won in '' @ str (current_row g + 1) @ lit '' tries!'',
          entry_state := Disabled\<rparr>
      else
        let g = g\<lparr>current_row := current_row g + 1\<rparr> in
        if GRID_ROWS \<le> current_row g then
          g\<lparr>message := lit ''Out of tries! Word was '' @ upper U (secret g),
            entry_state := Disabled\<rparr>
        else g\<lparr>entry_state := Normal, entry_text := []\<rparr>)"

text \<open>
  Running a callback. \<open>Paint\<close> reads \<^verbatim>\<open>self.current_row\<close> when it runs; an index
  outside the grid raises inside the callback, which Tk reports and drops, so the state
  stays as it is. \<open>Geometry\<close> moves the window and changes nothing the model holds.
\<close>

fun fire :: "unicode \<Rightarrow> callback \<Rightarrow> game \<Rightarrow> game" where
  "fire U (Paint i col) g =
     (if current_row g < length (tiles g) \<and> i < length (tiles g ! current_row g) then
        g\<lparr>tiles := (tiles g)[current_row g := (tiles g ! current_row g)[i := col]]\<rparr>
      else g)"
| "fire U (AfterGuess guess) g = after_guess U guess g"
| "fire U Geometry g = g"

text \<open>A pending callback is due when its time has come.\<close>

definition due :: "game \<Rightarrow> nat \<times> callback \<Rightarrow> bool" where
  "due g p = (fst p \<le> now g)"

text \<open>
  \<^verbatim>\<open>self.update()\<close> handles every event that is waiting. Of these the model holds the
  callbacks that are due: they run, the one due first running first (callbacks due at the
  same time run in the order they were scheduled), and leave the list. None of them
  schedules another. Key presses and clicks that arrive meanwhile are events of their own
  in the model, and the clock stands still while a method runs: a callback that comes due
  during a method is one that is due when the method starts a little later.
\<close>

definition update :: "unicode \<Rightarrow> game \<Rightarrow> game" where
  "update U g =
     fold (\<lambda>(t, cb). fire U cb) (sort_key fst (filter (due g) (pending g)))
       (g\<lparr>pending := filter (\<lambda>p. \<not> due g p) (pending g)\<rparr>)"

text \<open>
  \<^verbatim>\<open>_shake\<close>: seven times the window is moved and \<^verbatim>\<open>self.update()\<close> called, then
  the callback that puts the window back is scheduled.
  \<^verbatim>\<open>
  for dx in (-10,10,-6,6,-2,2,0):
      self.geometry(f"+{x+dx}+{y}")
      self.update()
  self.after(100, lambda: self.geometry(f"+{x}+{y}"))
  \<close>
\<close>

definition shake :: "unicode \<Rightarrow> game \<Rightarrow> game" where
  "shake U g = after 100 Geometry (fold (\<lambda>dx. update U) [- 10, 10, - 6, 6, - 2, 2, 0 :: int] g)"

section \<open>Submitting a guess\<close>

text \<open>\<^verbatim>\<open>_reject_guess\<close> shows the message and shakes the window.\<close>

definition reject_guess :: "unicode \<Rightarrow> ustr \<Rightarrow> game \<Rightarrow> game" where
  "reject_guess U msg g = shake U (g\<lparr>message := msg\<rparr>)"

text \<open>
  \<^verbatim>\<open>_submit_guess\<close>. A rejected guess returns after \<^verbatim>\<open>_reject_guess\<close>. An accepted
  guess schedules one \<open>Paint\<close> for each colour, disables the entry and schedules
  \<^verbatim>\<open>_after_guess\<close>. An exception of \<^verbatim>\<open>_feedback\<close> leaves the method before it has
  changed anything.
\<close>

definition submit_guess :: "unicode \<Rightarrow> game \<Rightarrow> error + game" where
  "submit_guess U g =
     (let guess = lower U (entry_text g) in
      if length guess \<noteq> GRID_COLS then
        Inr (reject_guess U (lit ''Enter exactly 5 letters'') g)
      else if \<not> isalpha U guess then
        Inr (reject_guess U (lit ''Letters only, please'') g)
      else if guess \<notin> word_set g then
        Inr (reject_guess U (lit ''Not a valid word'') g)
      else
        case feedback (secret g) guess of
          Inl e \<Rightarrow> Inl e
        | Inr colors \<Rightarrow>
            Inr (after (length colors * ANIM_DELAY + 200) (AfterGuess guess)
                   ((fold (\<lambda>(i, col). after (i * ANIM_DELAY) (Paint i col)) (enumerate 0 colors) g)
                      \<lparr>entry_state := Disabled\<rparr>)))"

text \<open>
  \<^verbatim>\<open>_on_key\<close>, bound to the release of a key in the entry: a text of more than
  \<open>GRID_COLS\<close> characters is replaced by the first \<open>GRID_COLS\<close> characters of its
  upper case. \<^verbatim>\<open>delete\<close> and \<^verbatim>\<open>insert\<close> do nothing to an entry that is disabled.
  The letters the method draws on the tiles are not part of the model.
\<close>

definition on_key :: "unicode \<Rightarrow> game \<Rightarrow> game" where
  "on_key U g =
     (let word = upper U (entry_text g) in
      if GRID_COLS < length word then
        (if entry_state g = Normal then g\<lparr>entry_text := take GRID_COLS word\<rparr> else g)
      else g)"

section \<open>Turns\<close>

text \<open>
  The event loop left alone: time passes until the last pending callback is due, and all
  of them run, in the order of their times.
\<close>

definition run_timers :: "unicode \<Rightarrow> game \<Rightarrow> game" where
  "run_timers U g = update U (g\<lparr>now := fold max (map fst (pending g)) (now g)\<rparr>)"

text \<open>
  One turn of the player: the entry holds \<open>raw\<close>, Return is pressed, and the event loop
  is left alone until every callback has run.
\<close>

definition turn :: "unicode \<Rightarrow> ustr \<Rightarrow> game \<Rightarrow> error + game" where
  "turn U raw g =
     (case submit_guess U (g\<lparr>entry_text := raw\<rparr>) of
        Inl e \<Rightarrow> Inl e
      | Inr g' \<Rightarrow> Inr (run_timers U g'))"

fun play :: "unicode \<Rightarrow> ustr list \<Rightarrow> game \<Rightarrow> error + game" where
  "play U [] g = Inr g"
| "play U (raw # raws) g = (case turn U raw g of Inl e \<Rightarrow> Inl e | Inr g' \<Rightarrow> play U raws g')"

section \<open>Reading the specification's terms off the state\<close>

text \<open>
  The code keeps no status field: the player learns the outcome from the message label,
  which \<^verbatim>\<open>_after_guess\<close> sets to \<^verbatim>\<open>You won in ... tries!\<close> or
  \<^verbatim>\<open>Out of tries! Word was ...\<close>.
\<close>

datatype status = InProgress | Won | Lost

definition status :: "game \<Rightarrow> status" where
  "status g =
     (if take 7 (message g) = lit ''You won'' then Won
      else if take 13 (message g) = lit ''Out of tries!'' then Lost
      else InProgress)"

text \<open>A guess that passes the three checks of \<^verbatim>\<open>_submit_guess\<close>.\<close>

definition valid_guess :: "unicode \<Rightarrow> game \<Rightarrow> ustr \<Rightarrow> bool" where
  "valid_guess U g raw =
     (length (lower U raw) = GRID_COLS \<and> isalpha U (lower U raw) \<and> lower U raw \<in> word_set g)"

text \<open>
  The states a running application can be in: after \<^verbatim>\<open>__init__\<close>; after the
  \<^verbatim>\<open>New Game\<close> button, which is never disabled; after the player has edited an entry
  that accepts input, by the keyboard or by pasting with the mouse; after a key has been
  released; after Return, whose binding does not depend on the state of the entry; after a
  callback that is due has run; after time has passed. Callbacks that are due may run in
  any order here, which covers every order the event loop can take.
\<close>

inductive reachable :: "unicode \<Rightarrow> (nat \<Rightarrow> ustr list) \<Rightarrow> (ustr \<Rightarrow> real) \<Rightarrow> game \<Rightarrow> bool"
  for U :: unicode and top_n_list :: "nat \<Rightarrow> ustr list" and zipf_frequency :: "ustr \<Rightarrow> real" where
  reach_init: "init U top_n_list zipf_frequency k = Inr g \<Longrightarrow> reachable U top_n_list zipf_frequency g"
| reach_new_game: "reachable U top_n_list zipf_frequency g \<Longrightarrow> start_game k g = Inr g'
    \<Longrightarrow> reachable U top_n_list zipf_frequency g'"
| reach_edit: "reachable U top_n_list zipf_frequency g \<Longrightarrow> entry_state g = Normal
    \<Longrightarrow> reachable U top_n_list zipf_frequency (g\<lparr>entry_text := t\<rparr>)"
| reach_key: "reachable U top_n_list zipf_frequency g
    \<Longrightarrow> reachable U top_n_list zipf_frequency (on_key U g)"
| reach_return: "reachable U top_n_list zipf_frequency g \<Longrightarrow> submit_guess U g = Inr g'
    \<Longrightarrow> reachable U top_n_list zipf_frequency g'"
| reach_timer: "reachable U top_n_list zipf_frequency g \<Longrightarrow> (t, cb) \<in> set (pending g)
    \<Longrightarrow> t \<le> now g
    \<Longrightarrow> reachable U top_n_list zipf_frequency (fire U cb (g\<lparr>pending := remove1 (t, cb) (pending g)\<rparr>))"
| reach_tick: "reachable U top_n_list zipf_frequency g
    \<Longrightarrow> reachable U top_n_list zipf_frequency (g\<lparr>now := now g + d\<rparr>)"

section \<open>Auxiliary notions\<close>

text \<open>The callbacks an accepted guess schedules when the clock shows \<open>t\<close>.\<close>

definition scheduled :: "nat \<Rightarrow> string list \<Rightarrow> ustr \<Rightarrow> (nat \<times> callback) list" where
  "scheduled t colors guess =
     map (\<lambda>(i, col). (t + i * ANIM_DELAY, Paint i col)) (enumerate 0 colors)
     @ [(t + (length colors * ANIM_DELAY + 200), AfterGuess guess)]"

text \<open>What the claims read off the result of a sequence of turns.\<close>

definition outcome :: "error + game \<Rightarrow> error + nat \<times> status \<times> widget_state" where
  "outcome r = (case r of Inl e \<Rightarrow> Inl e | Inr g \<Rightarrow> Inr (current_row g, status g, entry_state g))"

text \<open>The entry accepts input whenever the player is to type the next guess.\<close>

fun playable :: "unicode \<Rightarrow> ustr list \<Rightarrow> game \<Rightarrow> bool" where
  "playable U [] g = True"
| "playable U (raw # raws) g =
     (entry_state g = Normal
      \<and> (case turn U raw g of Inl e \<Rightarrow> True | Inr g' \<Rightarrow> playable U raws g'))"

text \<open>No callback is due later than the longest delay the code uses.\<close>

definition punctual :: "game \<Rightarrow> bool" where
  "punctual g = (\<forall>p\<in>set (pending g). fst p \<le> now g + (GRID_COLS * ANIM_DELAY + 200))"

text \<open>
  The word set is the set of the word list, the secret is one of the words, and every word
  passes the checks of \<^verbatim>\<open>_submit_guess\<close> as it stands.
\<close>

definition consistent :: "unicode \<Rightarrow> game \<Rightarrow> bool" where
  "consistent U g =
     (word_set g = set (words g) \<and> secret g \<in> set (words g)
      \<and> (\<forall>w\<in>set (words g). length w = GRID_COLS \<and> isalpha U w \<and> lower U w = w))"

section \<open>A small dictionary and the games played on it\<close>

text \<open>
  The three string methods on strings of ASCII characters, where the letters are
  \<^verbatim>\<open>A-Z\<close> (65 to 90) and \<^verbatim>\<open>a-z\<close> (97 to 122). The examples below apply them to
  such strings only. As in Python, \<^verbatim>\<open>isalpha\<close> of the empty string is false.
\<close>

definition ascii_lower :: "ustr \<Rightarrow> ustr" where
  "ascii_lower s = map (\<lambda>c. if 65 \<le> c \<and> c \<le> 90 then c + 32 else c) s"

definition ascii_upper :: "ustr \<Rightarrow> ustr" where
  "ascii_upper s = map (\<lambda>c. if 97 \<le> c \<and> c \<le> 122 then c - 32 else c) s"

definition ascii_isalpha :: "ustr \<Rightarrow> bool" where
  "ascii_isalpha s = (s \<noteq> [] \<and> list_all (\<lambda>c. (65 \<le> c \<and> c \<le> 90) \<or> (97 \<le> c \<and> c \<le> 122)) s)"

definition ascii :: unicode where
  "ascii = \<lparr>lower = ascii_lower, upper = ascii_upper, isalpha = ascii_isalpha\<rparr>"

text \<open>
  A word list in the order \<^verbatim>\<open>top_n_list\<close> would give it, in lower case as the lists of
  \<^verbatim>\<open>wordfreq\<close> are, with entries the filter of \<^verbatim>\<open>load_words\<close> drops: a word of three
  letters, a rare word, a word with a digit.
\<close>

definition ex_top_n_list :: "nat \<Rightarrow> ustr list" where
  "ex_top_n_list n =
     take n (map lit [''crane'', ''alloy'', ''llama'', ''apple'', ''bolts'', ''stone'', ''the'',
                      ''zzzzz'', ''rare1'', ''mouse'', ''house''])"

definition ex_zipf_frequency :: "ustr \<Rightarrow> real" where
  "ex_zipf_frequency w = (if w = lit ''zzzzz'' then 1 else 4)"

definition ex_words :: "ustr list" where
  "ex_words = map lit [''crane'', ''alloy'', ''llama'', ''apple'', ''bolts'', ''stone'', ''mouse'',
                       ''house'']"

definition ex_tiles :: "string list list" where
  "ex_tiles = replicate 6 [gray, gray, gray, gray, gray]"

text \<open>The state after \<^verbatim>\<open>__init__\<close> when the secret drawn is \<^verbatim>\<open>alloy\<close>.\<close>

definition ex_game :: game where
  "ex_game = \<lparr>words = ex_words, word_set = set ex_words, secret = lit ''alloy'', current_row = 0,
              message = [], entry_text = [], entry_state = Normal, tiles = ex_tiles,
              now = 0, pending = []\<rparr>"

text \<open>Five guesses that miss the secret, and the state after them.\<close>

definition ex_misses :: "ustr list" where
  "ex_misses = map lit [''LLAMA'', ''crane'', ''apple'', ''bolts'', ''stone'']"

definition ex_tiles_row5 :: "string list list" where
  "ex_tiles_row5 =
     [[yellow, green, yellow, gray, gray],
      [gray, gray, yellow, gray, gray],
      [green, gray, gray, yellow, gray],
      [gray, yellow, green, gray, gray],
      [gray, gray, yellow, gray, gray],
      [gray, gray, gray, gray, gray]]"

definition ex_game_row5 :: game where
  "ex_game_row5 = ex_game\<lparr>current_row := 5, tiles := ex_tiles_row5, now := 4750\<rparr>"


text \<open>
  Return on \<^verbatim>\<open>crane\<close> in the first state: the six callbacks of the animation are
  pending.
\<close>

definition ex_game_anim :: game where
  "ex_game_anim =
     ex_game\<lparr>entry_text := lit ''crane'', entry_state := Disabled,
             pending := [(0, Paint 0 gray), (150, Paint 1 gray), (300, Paint 2 yellow),
                         (450, Paint 3 gray), (600, Paint 4 gray),
                         (950, AfterGuess (lit ''crane''))]\<rparr>"

text \<open>
  The first of them has run, a hundred milliseconds have passed, and \<^verbatim>\<open>New Game\<close>
  is clicked, the secret drawn being \<^verbatim>\<open>alloy\<close> again: a fresh grid, the entry empty
  and enabled, and the other five callbacks still pending.
\<close>

definition ex_game_new :: game where
  "ex_game_new =
     ex_game\<lparr>now := 100,
             pending := [(150, Paint 1 gray), (300, Paint 2 yellow), (450, Paint 3 gray),
                         (600, Paint 4 gray), (950, AfterGuess (lit ''crane''))]\<rparr>"

text \<open>
  The same state 950 milliseconds after the Return, when all five are due and none has run
  yet, with \<^verbatim>\<open>zzzzz\<close>, which is no word of the list, typed into the entry.
\<close>

definition ex_game_due :: game where
  "ex_game_due = ex_game_new\<lparr>now := 950, entry_text := lit ''zzzzz''\<rparr>"

text \<open>The state after Return there.\<close>

definition ex_game_shaken :: game where
  "ex_game_shaken =
     ex_game\<lparr>current_row := 1, tiles := ex_tiles[0 := [gray, gray, yellow, gray, gray]],
             now := 950, pending := [(1050, Geometry)]\<rparr>"

section \<open>Facts about the messages and the status\<close>

lemma lit_append: "lit (a @ b) = lit a @ lit b"
  by (simp add: lit_def)

lemma status_empty [simp]: "message g = [] \<Longrightarrow> status g = InProgress"
  by (simp add: status_def lit_def)

lemma status_won [simp]: "message g = lit ''You won in '' @ s \<Longrightarrow> status g = Won"
  by (simp add: status_def lit_def)

lemma status_lost [simp]: "message g = lit ''Out of tries! Word was '' @ s \<Longrightarrow> status g = Lost"
  by (simp add: status_def lit_def)

lemma status_rejected:
  "message g \<in> {lit ''Enter exactly 5 letters'', lit ''Letters only, please'', lit ''Not a valid word''}
   \<Longrightarrow> status g = InProgress"
  by (auto simp: status_def lit_def)

lemma messages_distinct:
  "distinct [lit ''Enter exactly 5 letters'', lit ''Letters only, please'', lit ''Not a valid word'']"
  by (simp add: lit_def)

section \<open>Facts about the feedback\<close>

lemma colours_distinct [simp]:
  "gray \<noteq> green" "green \<noteq> gray" "yellow \<noteq> green" "green \<noteq> yellow"
  "gray \<noteq> yellow" "yellow \<noteq> gray"
  by (simp_all add: gray_def green_def yellow_def)

lemma index_member: "x \<in> set xs \<Longrightarrow> \<exists>k<length xs. index xs x = Inr k"
  by (induction xs) auto

text \<open>Whether position \<open>j\<close> is one the loop, started at \<open>i\<close>, finds equal in both words.\<close>

lemma hit_here: "(ch # rest) ! (i - i) = ch"
  by simp

lemma hit_later:
  assumes "i < j"
  shows "(i \<le> j \<and> j - i < length (ch # rest) \<and> (ch # rest) ! (j - i) = s ! j)
       = (Suc i \<le> j \<and> j - Suc i < length rest \<and> rest ! (j - Suc i) = s ! j)"
proof -
  from assms obtain k where k: "j = Suc (i + k)"
    using less_iff_Suc_add by auto
  then have "j - i = Suc k" "j - Suc i = k"
    by simp_all
  then show ?thesis
    using assms by auto
qed

lemma pass1_result:
  assumes "i + length guess \<le> length s" and "i + length guess \<le> length fb"
  shows "\<exists>fb' sc'. pass1 s i guess fb sc = Inr (fb', sc') \<and> length fb' = length fb
           \<and> (\<forall>j<length fb. fb' ! j =
                 (if i \<le> j \<and> j - i < length guess \<and> guess ! (j - i) = s ! j
                  then green else fb ! j))"
  using assms
proof (induction guess arbitrary: i fb sc)
  case Nil
  then show ?case by simp
next
  case (Cons ch rest)
  have i: "i < length s" "i < length fb"
    using Cons.prems by simp_all
  define fb1 where "fb1 = (if ch = s ! i then fb[i := green] else fb)"
  define sc1 where "sc1 = (if ch = s ! i then sc[i := None] else sc)"
  have step: "pass1 s i (ch # rest) fb sc = pass1 s (Suc i) rest fb1 sc1"
    using i by (simp add: fb1_def sc1_def)
  have len1: "length fb1 = length fb"
    by (simp add: fb1_def)
  have "\<exists>fb' sc'. pass1 s (Suc i) rest fb1 sc1 = Inr (fb', sc') \<and> length fb' = length fb1
           \<and> (\<forall>j<length fb1. fb' ! j =
                 (if Suc i \<le> j \<and> j - Suc i < length rest \<and> rest ! (j - Suc i) = s ! j
                  then green else fb1 ! j))"
  proof (rule Cons.IH)
    show "Suc i + length rest \<le> length s"
      using Cons.prems(1) by simp
    show "Suc i + length rest \<le> length fb1"
      using Cons.prems(2) len1 by simp
  qed
  then obtain fb' sc' where r: "pass1 s (Suc i) rest fb1 sc1 = Inr (fb', sc')"
    "length fb' = length fb"
    "\<And>j. j < length fb \<Longrightarrow> fb' ! j =
       (if Suc i \<le> j \<and> j - Suc i < length rest \<and> rest ! (j - Suc i) = s ! j
        then green else fb1 ! j)"
    unfolding len1 by blast
  have "fb' ! j = (if i \<le> j \<and> j - i < length (ch # rest) \<and> (ch # rest) ! (j - i) = s ! j
                   then green else fb ! j)" if j: "j < length fb" for j
  proof -
    consider "j < i" | "j = i" | "i < j"
      by linarith
    then show ?thesis
    proof cases
      case 1
      with r(3) [OF j] show ?thesis by (simp add: fb1_def)
    next
      case 2
      with r(3) [OF j] j show ?thesis by (simp add: fb1_def)
    next
      case 3
      have "fb1 ! j = fb ! j"
        using 3 by (simp add: fb1_def)
      with r(3) [OF j] hit_later [OF 3, of ch rest s] show ?thesis
        by simp
    qed
  qed
  with r(1,2) step show ?case by simp
qed

lemma pass2_step_hit:
  assumes "i < length fb" and "fb ! i = gray" and "index sc (Some ch) = Inr k"
    and "Some ch \<in> set sc"
  shows "pass2 i (ch # rest) fb sc = pass2 (Suc i) rest (fb[i := yellow]) (sc[k := None])"
  using assms by simp

lemma pass2_step_miss:
  assumes "i < length fb" and "\<not> (fb ! i = gray \<and> Some ch \<in> set sc)"
  shows "pass2 i (ch # rest) fb sc = pass2 (Suc i) rest fb sc"
  using assms by auto

lemma pass2_result:
  assumes "i + length guess \<le> length fb"
  shows "\<exists>fb'. pass2 i guess fb sc = Inr fb' \<and> length fb' = length fb
           \<and> (\<forall>j<length fb. (fb' ! j = green) = (fb ! j = green))"
  using assms
proof (induction guess arbitrary: i fb sc)
  case Nil
  show ?case by simp
next
  case (Cons ch rest)
  have i: "i < length fb"
    using Cons.prems by simp
  show ?case
  proof (cases "fb ! i = gray \<and> Some ch \<in> set sc")
    case True
    then have mem: "Some ch \<in> set sc" and g: "fb ! i = gray"
      by simp_all
    from index_member [OF mem] obtain k where k: "index sc (Some ch) = Inr k"
      by blast
    have step: "pass2 i (ch # rest) fb sc = pass2 (Suc i) rest (fb[i := yellow]) (sc[k := None])"
      by (rule pass2_step_hit [OF i g k mem])
    have "\<exists>fb'. pass2 (Suc i) rest (fb[i := yellow]) (sc[k := None]) = Inr fb'
            \<and> length fb' = length (fb[i := yellow])
            \<and> (\<forall>j<length (fb[i := yellow]). (fb' ! j = green) = (fb[i := yellow] ! j = green))"
    proof (rule Cons.IH)
      show "Suc i + length rest \<le> length (fb[i := yellow])"
        using Cons.prems by simp
    qed
    then obtain fb' where r: "pass2 (Suc i) rest (fb[i := yellow]) (sc[k := None]) = Inr fb'"
      "length fb' = length fb"
      "\<forall>j<length fb. (fb' ! j = green) = (fb[i := yellow] ! j = green)"
      by auto
    have "(fb' ! j = green) = (fb ! j = green)" if j: "j < length fb" for j
    proof (cases "j = i")
      case True
      with r(3) j g show ?thesis by simp
    next
      case False
      with r(3) j show ?thesis by simp
    qed
    then have "\<forall>j<length fb. (fb' ! j = green) = (fb ! j = green)"
      by blast
    with r(1,2) show ?thesis
      unfolding step by blast
  next
    case False
    have step: "pass2 i (ch # rest) fb sc = pass2 (Suc i) rest fb sc"
      by (rule pass2_step_miss [OF i False])
    have "\<exists>fb'. pass2 (Suc i) rest fb sc = Inr fb' \<and> length fb' = length fb
            \<and> (\<forall>j<length fb. (fb' ! j = green) = (fb ! j = green))"
    proof (rule Cons.IH)
      show "Suc i + length rest \<le> length fb"
        using Cons.prems by simp
    qed
    then show ?thesis
      unfolding step .
  qed
qed

lemma feedback_result:
  assumes "length guess \<le> length s" and "length guess \<le> GRID_COLS"
  shows "\<exists>colors. feedback s guess = Inr colors \<and> length colors = GRID_COLS
           \<and> (\<forall>j<GRID_COLS. (colors ! j = green) = (j < length guess \<and> guess ! j = s ! j))"
proof -
  let ?fb0 = "replicate GRID_COLS gray"
  have "\<exists>fb sc. pass1 s 0 guess ?fb0 (map Some s) = Inr (fb, sc)
          \<and> length fb = length ?fb0
          \<and> (\<forall>j<length ?fb0. fb ! j =
                (if 0 \<le> j \<and> j - 0 < length guess \<and> guess ! (j - 0) = s ! j
                 then green else ?fb0 ! j))"
  proof (rule pass1_result)
    show "0 + length guess \<le> length s"
      using assms(1) by simp
    show "0 + length guess \<le> length ?fb0"
      using assms(2) by simp
  qed
  then obtain fb sc where p1: "pass1 s 0 guess ?fb0 (map Some s) = Inr (fb, sc)"
    and len1: "length fb = GRID_COLS"
    and fb: "\<forall>j<GRID_COLS. fb ! j = (if j < length guess \<and> guess ! j = s ! j then green else gray)"
    by auto
  have "\<exists>colors. pass2 0 guess fb sc = Inr colors \<and> length colors = length fb
          \<and> (\<forall>j<length fb. (colors ! j = green) = (fb ! j = green))"
  proof (rule pass2_result)
    show "0 + length guess \<le> length fb"
      using assms(2) len1 by simp
  qed
  then obtain colors where p2: "pass2 0 guess fb sc = Inr colors"
    and len2: "length colors = GRID_COLS"
    and col: "\<forall>j<GRID_COLS. (colors ! j = green) = (fb ! j = green)"
    unfolding len1 by blast
  have "(colors ! j = green) = (j < length guess \<and> guess ! j = s ! j)" if j: "j < GRID_COLS" for j
  proof -
    have "(colors ! j = green) = (fb ! j = green)"
      using col j by blast
    also have "\<dots> = (j < length guess \<and> guess ! j = s ! j)"
      using fb j by simp
    finally show ?thesis .
  qed
  then have all: "\<forall>j<GRID_COLS. (colors ! j = green) = (j < length guess \<and> guess ! j = s ! j)"
    by blast
  have "feedback s guess = Inr colors"
    by (simp add: feedback_def p1 p2)
  with len2 all show ?thesis
    by blast
qed

lemma verdict_Correct: "(verdict_of c = Correct) = (c = green)"
  by (simp add: verdict_of_def)

text \<open>Neither loop changes the length of \<open>fb\<close>, so what \<^verbatim>\<open>_feedback\<close> returns has
  \<open>GRID_COLS\<close> entries whenever it returns.\<close>

lemma pass1_length:
  "pass1 s i guess fb sc = Inr (fb', sc') \<Longrightarrow> length fb' = length fb"
proof (induction guess arbitrary: i fb sc)
  case Nil
  then show ?case by simp
next
  case (Cons ch rest)
  show ?case
  proof (cases "ch = s ! i")
    case True
    with Cons.prems have "pass1 s (Suc i) rest (fb[i := green]) (sc[i := None]) = Inr (fb', sc')"
      by (simp split: if_splits)
    from Cons.IH [OF this] show ?thesis by simp
  next
    case False
    with Cons.prems have "pass1 s (Suc i) rest fb sc = Inr (fb', sc')"
      by (simp split: if_splits)
    from Cons.IH [OF this] show ?thesis .
  qed
qed

lemma pass2_length:
  "pass2 i guess fb sc = Inr fb' \<Longrightarrow> length fb' = length fb"
proof (induction guess arbitrary: i fb sc)
  case Nil
  then show ?case by simp
next
  case (Cons ch rest)
  have i: "i < length fb"
    using Cons.prems by (simp split: if_splits)
  show ?case
  proof (cases "fb ! i = gray \<and> Some ch \<in> set sc")
    case True
    then have mem: "Some ch \<in> set sc" and g: "fb ! i = gray"
      by simp_all
    from index_member [OF mem] obtain k where k: "index sc (Some ch) = Inr k"
      by blast
    have "pass2 i (ch # rest) fb sc = pass2 (Suc i) rest (fb[i := yellow]) (sc[k := None])"
      by (rule pass2_step_hit [OF i g k mem])
    with Cons.prems have "pass2 (Suc i) rest (fb[i := yellow]) (sc[k := None]) = Inr fb'"
      by simp
    from Cons.IH [OF this] show ?thesis by simp
  next
    case False
    have "pass2 i (ch # rest) fb sc = pass2 (Suc i) rest fb sc"
      by (rule pass2_step_miss [OF i False])
    with Cons.prems have "pass2 (Suc i) rest fb sc = Inr fb'"
      by simp
    from Cons.IH [OF this] show ?thesis .
  qed
qed

lemma feedback_length:
  assumes "feedback s guess = Inr colors"
  shows "length colors = GRID_COLS"
proof -
  from assms obtain fb sc where p1: "pass1 s 0 guess (replicate GRID_COLS gray) (map Some s) = Inr (fb, sc)"
    and p2: "pass2 0 guess fb sc = Inr colors"
    by (auto simp: feedback_def split: sum.splits)
  from pass1_length [OF p1] pass2_length [OF p2] show ?thesis
    by simp
qed

section \<open>Facts about the callbacks\<close>

lemma fire_keeps [simp]:
  "secret (fire U cb g) = secret g" "words (fire U cb g) = words g"
  "word_set (fire U cb g) = word_set g" "now (fire U cb g) = now g"
  "pending (fire U cb g) = pending g"
  by (cases cb; simp add: after_guess_def Let_def)+

lemma fold_fire_keeps [simp]:
  "secret (fold (\<lambda>(t, cb). fire U cb) ps g) = secret g"
  "words (fold (\<lambda>(t, cb). fire U cb) ps g) = words g"
  "word_set (fold (\<lambda>(t, cb). fire U cb) ps g) = word_set g"
  "now (fold (\<lambda>(t, cb). fire U cb) ps g) = now g"
  "pending (fold (\<lambda>(t, cb). fire U cb) ps g) = pending g"
  by (induction ps arbitrary: g; simp add: split_beta)+

text \<open>Callbacks that only paint leave the row, the message and the entry as they are.\<close>

lemma fold_paint_keeps:
  assumes "\<forall>p\<in>set ps. \<exists>i col. snd p = Paint i col"
  shows "current_row (fold (\<lambda>(t, cb). fire U cb) ps g) = current_row g
       \<and> message (fold (\<lambda>(t, cb). fire U cb) ps g) = message g
       \<and> entry_state (fold (\<lambda>(t, cb). fire U cb) ps g) = entry_state g
       \<and> entry_text (fold (\<lambda>(t, cb). fire U cb) ps g) = entry_text g"
  using assms
proof (induction ps arbitrary: g)
  case Nil
  show ?case by simp
next
  case (Cons p ps)
  from Cons.prems obtain t i col where p: "p = (t, Paint i col)"
    by (cases p) auto
  have "\<forall>p\<in>set ps. \<exists>i col. snd p = Paint i col"
    using Cons.prems by simp
  from Cons.IH [OF this, of "fire U (Paint i col) g"] show ?case
    by (simp add: p)
qed

lemma update_keeps [simp]:
  "secret (update U g) = secret g" "words (update U g) = words g"
  "word_set (update U g) = word_set g" "now (update U g) = now g"
  "pending (update U g) = filter (\<lambda>p. \<not> due g p) (pending g)"
  by (simp_all add: update_def)

text \<open>With no callback due, \<^verbatim>\<open>self.update()\<close> changes nothing.\<close>

lemma update_idle:
  assumes "\<forall>p\<in>set (pending g). \<not> due g p"
  shows "update U g = g"
proof -
  have "filter (due g) (pending g) = []" "filter (\<lambda>p. \<not> due g p) (pending g) = pending g"
    using assms by (simp_all add: filter_empty_conv filter_id_conv)
  then show ?thesis
    by (simp add: update_def)
qed

lemma shake_idle:
  assumes "\<forall>p\<in>set (pending g). \<not> due g p"
  shows "shake U g = g\<lparr>pending := pending g @ [(now g + 100, Geometry)]\<rparr>"
  by (simp add: shake_def update_idle [OF assms] after_def)

lemma reject_guess_idle:
  assumes "\<forall>p\<in>set (pending g). \<not> due g p"
  shows "reject_guess U msg g = g\<lparr>message := msg, pending := pending g @ [(now g + 100, Geometry)]\<rparr>"
proof -
  have "\<forall>p\<in>set (pending (g\<lparr>message := msg\<rparr>)). \<not> due (g\<lparr>message := msg\<rparr>) p"
    using assms by (simp add: due_def)
  from shake_idle [OF this] show ?thesis
    by (simp add: reject_guess_def)
qed

lemma shake_keeps [simp]:
  "secret (shake U g) = secret g" "words (shake U g) = words g"
  "word_set (shake U g) = word_set g" "now (shake U g) = now g"
  by (simp_all add: shake_def after_def)

lemma shake_pending: "set (pending (shake U g)) \<subseteq> set (pending g) \<union> {(now g + 100, Geometry)}"
  by (auto simp: shake_def after_def)

text \<open>The loop of \<^verbatim>\<open>self.after\<close> calls in \<^verbatim>\<open>_submit_guess\<close>.\<close>

lemma after_paints:
  "fold (\<lambda>(i, col). after (i * ANIM_DELAY) (Paint i col)) (enumerate k colors) g
     = g\<lparr>pending := pending g
           @ map (\<lambda>(i, col). (now g + i * ANIM_DELAY, Paint i col)) (enumerate k colors)\<rparr>"
  by (induction colors arbitrary: k g) (simp_all add: after_def)

lemma submit_accepted:
  assumes "valid_guess U g (entry_text g)"
    and "feedback (secret g) (lower U (entry_text g)) = Inr colors"
  shows "submit_guess U g =
           Inr (g\<lparr>pending := pending g @ scheduled (now g) colors (lower U (entry_text g)),
                  entry_state := Disabled\<rparr>)"
  using assms
  by (simp add: submit_guess_def valid_guess_def Let_def after_paints after_def scheduled_def)

lemma scheduled_paints:
  assumes "p \<in> set (map (\<lambda>(i, col). (t + i * ANIM_DELAY, Paint i col)) (enumerate k colors))"
  shows "\<exists>i col. p = (t + i * ANIM_DELAY, Paint i col) \<and> k \<le> i \<and> i < k + length colors"
  using assms by (auto simp: in_set_enumerate_eq)

text \<open>Time passing until every pending callback is due.\<close>

lemma le_fold_max: "t \<in> set ts \<Longrightarrow> t \<le> fold max ts (n::nat)"
proof -
  assume "t \<in> set ts"
  then have "t \<le> Max (set (n # ts))"
    by simp
  then show ?thesis
    by (simp only: Max.set_eq_fold)
qed

lemma run_timers_all:
  "run_timers U g =
     fold (\<lambda>(t, cb). fire U cb) (sort_key fst (pending g))
       (g\<lparr>now := fold max (map fst (pending g)) (now g), pending := []\<rparr>)"
proof -
  let ?g = "g\<lparr>now := fold max (map fst (pending g)) (now g)\<rparr>"
  have "\<forall>p\<in>set (pending g). due ?g p"
    by (simp add: due_def le_fold_max)
  then have "filter (due ?g) (pending ?g) = pending g" "filter (\<lambda>p. \<not> due ?g p) (pending ?g) = []"
    by (simp_all add: filter_empty_conv filter_id_conv)
  then show ?thesis
    by (simp add: run_timers_def update_def)
qed

text \<open>A callback scheduled last and due no earlier than the others runs last.\<close>

lemma insort_key_snoc:
  "f a \<le> f x \<Longrightarrow> insort_key f a (ys @ [x]) = insort_key f a ys @ [x]"
  by (induction ys) simp_all

lemma sort_key_snoc:
  "\<forall>y\<in>set ys. f y \<le> f x \<Longrightarrow> sort_key f (ys @ [x]) = sort_key f ys @ [x]"
proof (induction ys)
  case Nil
  show ?case by simp
next
  case (Cons y ys)
  then have "sort_key f (ys @ [x]) = sort_key f ys @ [x]" and "f y \<le> f x"
    by simp_all
  then show ?case
    by (simp add: insort_key_snoc)
qed

section \<open>Facts about a turn\<close>

lemma after_guess_keeps [simp]:
  "secret (after_guess U guess g) = secret g" "pending (after_guess U guess g) = pending g"
  "word_set (after_guess U guess g) = word_set g" "words (after_guess U guess g) = words g"
  by (simp_all add: after_guess_def Let_def)

lemma after_guess_won:
  assumes "guess = secret g"
  shows "after_guess U guess g =
           g\<lparr>message := lit ''You won in '' @ str (current_row g + 1) @ lit '' tries!'',
             entry_state := Disabled\<rparr>"
  using assms by (simp add: after_guess_def)

lemma valid_guess_word_set:
  "word_set g' = word_set g \<Longrightarrow> valid_guess U g' raw = valid_guess U g raw"
  by (simp add: valid_guess_def)

text \<open>
  What Return does: either the guess fails a check and \<^verbatim>\<open>_reject_guess\<close> runs, or it
  passes all three and the callbacks of the animation are scheduled.
\<close>

lemma submit_guess_cases:
  assumes "submit_guess U g = Inr g'"
  obtains (rejected) msg where "\<not> valid_guess U g (entry_text g)" "g' = reject_guess U msg g"
  | (accepted) colors where "valid_guess U g (entry_text g)"
      "feedback (secret g) (lower U (entry_text g)) = Inr colors"
      "g' = g\<lparr>pending := pending g @ scheduled (now g) colors (lower U (entry_text g)),
              entry_state := Disabled\<rparr>"
proof (cases "valid_guess U g (entry_text g)")
  case False
  then have "\<exists>msg. submit_guess U g = Inr (reject_guess U msg g)"
    by (auto simp: submit_guess_def valid_guess_def Let_def)
  with assms False rejected show ?thesis
    by auto
next
  case True
  then have "submit_guess U g =
      (case feedback (secret g) (lower U (entry_text g)) of Inl e \<Rightarrow> Inl e
       | Inr colors \<Rightarrow>
            Inr (after (length colors * ANIM_DELAY + 200) (AfterGuess (lower U (entry_text g)))
                   ((fold (\<lambda>(i, col). after (i * ANIM_DELAY) (Paint i col)) (enumerate 0 colors) g)
                      \<lparr>entry_state := Disabled\<rparr>)))"
    by (simp add: submit_guess_def valid_guess_def Let_def)
  with assms obtain colors where c: "feedback (secret g) (lower U (entry_text g)) = Inr colors"
    by (cases "feedback (secret g) (lower U (entry_text g))") auto
  from submit_accepted [OF True c] assms accepted [OF True c] show ?thesis
    by simp
qed

text \<open>
  An accepted guess ends in \<^verbatim>\<open>_after_guess\<close> for that guess, run after every other
  callback: its time is the latest of all.
\<close>

lemma turn_accepted:
  assumes valid: "valid_guess U g raw" and fb: "feedback (secret g) (lower U raw) = Inr colors"
    and p: "punctual g"
  shows "\<exists>g1. turn U raw g = Inr (after_guess U (lower U raw) g1)
           \<and> secret g1 = secret g \<and> word_set g1 = word_set g \<and> words g1 = words g
           \<and> pending g1 = []
           \<and> (pending g = [] \<longrightarrow> current_row g1 = current_row g)"
proof -
  let ?g = "g\<lparr>entry_text := raw\<rparr>"
  let ?guess = "lower U raw"
  let ?paints = "map (\<lambda>(i, col). (now g + i * ANIM_DELAY, Paint i col)) (enumerate 0 colors)"
  let ?x = "(now g + (length colors * ANIM_DELAY + 200), AfterGuess ?guess)"
  let ?g' = "?g\<lparr>pending := pending g @ scheduled (now g) colors ?guess, entry_state := Disabled\<rparr>"
  let ?h = "?g'\<lparr>now := fold max (map fst (pending ?g')) (now ?g'), pending := []\<rparr>"
  let ?F = "\<lambda>(t, cb). fire U cb"
  have len: "length colors = GRID_COLS"
    by (rule feedback_length [OF fb])
  have v: "valid_guess U ?g (entry_text ?g)"
    using valid by (simp add: valid_guess_def)
  have f: "feedback (secret ?g) (lower U (entry_text ?g)) = Inr colors"
    using fb by simp
  have s: "submit_guess U ?g = Inr ?g'"
    using submit_accepted [OF v f] by simp
  have pend: "pending ?g' = (pending g @ ?paints) @ [?x]"
    by (simp add: scheduled_def)
  have bound: "\<forall>y\<in>set (pending g @ ?paints). fst y \<le> fst ?x"
  proof
    fix y
    assume "y \<in> set (pending g @ ?paints)"
    then have "y \<in> set (pending g) \<or> y \<in> set ?paints"
      by (simp only: set_append Un_iff)
    then consider "y \<in> set (pending g)" | "y \<in> set ?paints"
      by blast
    then show "fst y \<le> fst ?x"
    proof cases
      case 1
      with p have "fst y \<le> now g + (GRID_COLS * ANIM_DELAY + 200)"
        by (simp add: punctual_def)
      then show ?thesis
        by (simp add: len)
    next
      case 2
      from scheduled_paints [OF 2] obtain i col where
        "y = (now g + i * ANIM_DELAY, Paint i col)" "i < 0 + length colors"
        by blast
      then have y: "fst y = now g + i * ANIM_DELAY" and "i \<le> length colors"
        by simp_all
      then have "i * ANIM_DELAY \<le> length colors * ANIM_DELAY"
        by (simp only: mult_le_mono1)
      moreover have "fst ?x = now g + (length colors * ANIM_DELAY + 200)"
        by simp
      ultimately show ?thesis
        using y by linarith
    qed
  qed
  have sorted: "sort_key fst (pending ?g') = sort_key fst (pending g @ ?paints) @ [?x]"
    unfolding pend by (rule sort_key_snoc [OF bound])
  define g1 where "g1 = fold ?F (sort_key fst (pending g @ ?paints)) ?h"
  have "run_timers U ?g' = fold ?F (sort_key fst (pending ?g')) ?h"
    by (rule run_timers_all)
  also have "\<dots> = after_guess U ?guess g1"
    unfolding sorted g1_def by simp
  finally have t: "turn U raw g = Inr (after_guess U ?guess g1)"
    by (simp add: turn_def s)
  have keep: "secret g1 = secret g" "word_set g1 = word_set g" "words g1 = words g"
    "pending g1 = []"
    by (simp_all add: g1_def)
  have row: "current_row g1 = current_row g" if idle: "pending g = []"
  proof -
    have "\<forall>p\<in>set (sort_key fst (pending g @ ?paints)). \<exists>i col. snd p = Paint i col"
      using idle by auto
    from fold_paint_keeps [OF this, of U ?h] show ?thesis
      by (simp add: g1_def)
  qed
  from t keep row show ?thesis
    by blast
qed

lemma turn_won:
  assumes valid: "valid_guess U g raw" and hit: "lower U raw = secret g" and p: "punctual g"
  shows "\<exists>g' n. turn U raw g = Inr g' \<and> status g' = Won \<and> entry_state g' = Disabled
           \<and> secret g' = secret g
           \<and> message g' = lit ''You won in '' @ str (n + 1) @ lit '' tries!''
           \<and> current_row g' = n
           \<and> (pending g = [] \<longrightarrow> n = current_row g)"
proof -
  have len: "length (lower U raw) = GRID_COLS"
    using valid by (simp add: valid_guess_def)
  have "\<exists>colors. feedback (secret g) (lower U raw) = Inr colors \<and> length colors = GRID_COLS
          \<and> (\<forall>j<GRID_COLS. (colors ! j = green)
                = (j < length (lower U raw) \<and> lower U raw ! j = secret g ! j))"
  proof (rule feedback_result)
    show "length (lower U raw) \<le> length (secret g)"
      using hit by simp
    show "length (lower U raw) \<le> GRID_COLS"
      using len by simp
  qed
  then obtain colors where fb: "feedback (secret g) (lower U raw) = Inr colors"
    by blast
  from turn_accepted [OF valid fb p]
  obtain g1 where t: "turn U raw g = Inr (after_guess U (lower U raw) g1)"
    and s: "secret g1 = secret g" and row: "pending g = [] \<longrightarrow> current_row g1 = current_row g"
    by blast
  from s hit have "lower U raw = secret g1"
    by simp
  from after_guess_won [OF this, of U] t s row show ?thesis
    by simp
qed

section \<open>Facts about the reachable states\<close>

lemma init_state:
  assumes "init U top_n_list zipf_frequency k = Inr g"
  shows "pending g = [] \<and> words g = fst (load_words U top_n_list zipf_frequency blank)
       \<and> word_set g = set (words g) \<and> secret g \<in> set (words g)"
proof -
  define ws where "ws = fst (load_words U top_n_list zipf_frequency blank)"
  have l: "load_words U top_n_list zipf_frequency blank = (ws, blank\<lparr>word_set := set ws\<rparr>)"
    by (simp add: ws_def load_words_def Let_def)
  from assms have s: "start_game k (create_widgets (blank\<lparr>word_set := set ws, words := ws\<rparr>)) = Inr g"
    by (simp add: init_def l)
  then have k: "k < length ws"
    by (simp add: start_game_def create_widgets_def split: if_splits)
  with s have g: "pending g = []" "words g = ws" "word_set g = set ws" "secret g = ws ! k"
    by (auto simp: start_game_def create_widgets_def blank_def)
  from k have "ws ! k \<in> set ws"
    by (rule nth_mem)
  with g show ?thesis
    by (simp add: ws_def)
qed

lemma start_game_state:
  assumes "start_game k g = Inr g'"
  shows "pending g' = pending g \<and> now g' = now g \<and> words g' = words g
       \<and> word_set g' = word_set g \<and> secret g' \<in> set (words g)"
  using assms by (auto simp: start_game_def split: if_splits)

lemma submit_guess_keeps:
  assumes "submit_guess U g = Inr g'"
  shows "secret g' = secret g \<and> words g' = words g \<and> word_set g' = word_set g \<and> now g' = now g"
  using assms
proof (cases rule: submit_guess_cases)
  case (rejected msg)
  then show ?thesis by (simp add: reject_guess_def)
next
  case (accepted colors)
  then show ?thesis by simp
qed

lemma submit_guess_punctual:
  assumes "submit_guess U g = Inr g'" and p: "punctual g"
  shows "punctual g'"
  using assms(1)
proof (cases rule: submit_guess_cases)
  case (rejected msg)
  have "fst q \<le> now g + (GRID_COLS * ANIM_DELAY + 200)" if "q \<in> set (pending g')" for q
  proof -
    from that shake_pending [of U "g\<lparr>message := msg\<rparr>"] rejected(2)
    consider "q \<in> set (pending g)" | "q = (now g + 100, Geometry)"
      by (auto simp: reject_guess_def)
    then show ?thesis
    proof cases
      case 1
      with p show ?thesis by (simp add: punctual_def)
    next
      case 2
      then show ?thesis by simp
    qed
  qed
  moreover have "now g' = now g"
    using rejected(2) by (simp add: reject_guess_def)
  ultimately show ?thesis
    by (simp add: punctual_def)
next
  case (accepted colors)
  have len: "length colors = GRID_COLS"
    by (rule feedback_length [OF accepted(2)])
  let ?paints = "map (\<lambda>(i, col). (now g + i * ANIM_DELAY, Paint i col)) (enumerate 0 colors)"
  have "fst q \<le> now g + (GRID_COLS * ANIM_DELAY + 200)" if "q \<in> set (pending g')" for q
  proof -
    have "pending g' = pending g @ ?paints
            @ [(now g + (length colors * ANIM_DELAY + 200), AfterGuess (lower U (entry_text g)))]"
      by (simp add: accepted(3) scheduled_def)
    with that have "q \<in> set (pending g) \<or> q \<in> set ?paints
        \<or> q = (now g + (length colors * ANIM_DELAY + 200), AfterGuess (lower U (entry_text g)))"
      by (simp only: set_append Un_iff list.set insert_iff empty_iff simp_thms)
    then consider "q \<in> set (pending g)" | "q \<in> set ?paints"
      | "q = (now g + (length colors * ANIM_DELAY + 200), AfterGuess (lower U (entry_text g)))"
      by blast
    then show ?thesis
    proof cases
      case 1
      with p show ?thesis by (simp add: punctual_def)
    next
      case 2
      from scheduled_paints [OF 2] obtain i col where
        "q = (now g + i * ANIM_DELAY, Paint i col)" "i < 0 + length colors"
        by blast
      then have q: "fst q = now g + i * ANIM_DELAY" and "i \<le> GRID_COLS"
        using len by simp_all
      then have "i * ANIM_DELAY \<le> GRID_COLS * ANIM_DELAY"
        by (simp only: mult_le_mono1)
      with q show ?thesis by linarith
    next
      case 3
      then show ?thesis by (simp add: len)
    qed
  qed
  moreover have "now g' = now g"
    using accepted(3) by simp
  ultimately show ?thesis
    by (simp add: punctual_def)
qed

text \<open>
  Every delay the code hands to \<^verbatim>\<open>self.after\<close> is at most
  \<open>GRID_COLS * ANIM_DELAY + 200\<close> milliseconds, and the clock never goes back.
\<close>

lemma reachable_punctual:
  assumes "reachable U top_n_list zipf_frequency g"
  shows "punctual g"
  using assms
proof (induction rule: reachable.induct)
  case (reach_init k g)
  from init_state [OF this] show ?case
    by (simp add: punctual_def)
next
  case (reach_new_game g k g')
  from start_game_state [OF reach_new_game(2)] reach_new_game(3) show ?case
    by (simp add: punctual_def)
next
  case (reach_edit g t)
  then show ?case by (simp add: punctual_def)
next
  case (reach_key g)
  then show ?case by (simp add: punctual_def on_key_def Let_def)
next
  case (reach_return g g')
  from submit_guess_punctual [OF reach_return(2) reach_return(3)] show ?case .
next
  case (reach_timer g t cb)
  have "set (remove1 (t, cb) (pending g)) \<subseteq> set (pending g)"
    by (rule set_remove1_subset)
  with reach_timer(4) show ?case
    by (auto simp: punctual_def)
next
  case (reach_tick g d)
  then show ?case by (auto simp: punctual_def)
qed

text \<open>
  When the words of the list are in lower case already, every word loaded has five
  characters, is alphabetic and is its own lower case.
\<close>

lemma loaded_word:
  assumes "w \<in> set (fst (load_words U top_n_list zipf_frequency g))"
  shows "\<exists>v\<in>set (top_n_list WORDS_SAMPLE). w = lower U v \<and> length v = 5 \<and> isalpha U v
           \<and> MIN_ZIPF \<le> zipf_frequency v"
  using assms by (auto simp: load_words_def Let_def)

lemma loaded_word_shape:
  assumes low: "\<forall>v\<in>set (top_n_list WORDS_SAMPLE). lower U v = v"
    and w: "w \<in> set (fst (load_words U top_n_list zipf_frequency g))"
  shows "length w = GRID_COLS \<and> isalpha U w \<and> lower U w = w \<and> MIN_ZIPF \<le> zipf_frequency w"
proof -
  from loaded_word [OF w] obtain v where v: "v \<in> set (top_n_list WORDS_SAMPLE)" "w = lower U v"
    "length v = 5" "isalpha U v" "MIN_ZIPF \<le> zipf_frequency v"
    by blast
  from low v(1) have "lower U v = v"
    by blast
  with v show ?thesis
    by (simp add: GRID_COLS_def)
qed

lemma reachable_consistent:
  assumes low: "\<forall>v\<in>set (top_n_list WORDS_SAMPLE). lower U v = v"
    and r: "reachable U top_n_list zipf_frequency g"
  shows "consistent U g"
  using r
proof (induction rule: reachable.induct)
  case (reach_init k g)
  note i = init_state [OF this]
  have "\<forall>w\<in>set (words g). length w = GRID_COLS \<and> isalpha U w \<and> lower U w = w"
  proof
    fix w
    assume "w \<in> set (words g)"
    with i have w: "w \<in> set (fst (load_words U top_n_list zipf_frequency blank))"
      by simp
    have "length w = GRID_COLS \<and> isalpha U w \<and> lower U w = w \<and> MIN_ZIPF \<le> zipf_frequency w"
      using low w by (rule loaded_word_shape)
    then show "length w = GRID_COLS \<and> isalpha U w \<and> lower U w = w"
      by simp
  qed
  with i show ?case
    unfolding consistent_def by blast
next
  case (reach_new_game g k g')
  from start_game_state [OF reach_new_game(2)] reach_new_game(3) show ?case
    by (simp add: consistent_def)
next
  case (reach_edit g t)
  then show ?case by (simp add: consistent_def)
next
  case (reach_key g)
  then show ?case by (simp add: consistent_def on_key_def Let_def)
next
  case (reach_return g g')
  from submit_guess_keeps [OF reach_return(2)] reach_return(3) show ?case
    by (simp add: consistent_def)
next
  case (reach_timer g t cb)
  then show ?case by (simp add: consistent_def)
next
  case (reach_tick g d)
  then show ?case by (simp add: consistent_def)
qed

section \<open>Facts about a game with no callback pending\<close>

lemma after_guess_missed:
  assumes "guess \<noteq> secret g"
  shows "after_guess U guess g =
           (if GRID_ROWS \<le> current_row g + 1
            then g\<lparr>message := lit ''Out of tries! Word was '' @ upper U (secret g),
                   current_row := current_row g + 1, entry_state := Disabled\<rparr>
            else g\<lparr>message := [], current_row := current_row g + 1,
                   entry_state := Normal, entry_text := []\<rparr>)"
  using assms by (simp add: after_guess_def)

lemma turn_missed:
  assumes valid: "valid_guess U g raw" and idle: "pending g = []"
    and len: "length (secret g) = GRID_COLS" and miss: "lower U raw \<noteq> secret g"
  shows "\<exists>g'. turn U raw g = Inr g' \<and> current_row g' = current_row g + 1
           \<and> secret g' = secret g \<and> word_set g' = word_set g \<and> pending g' = []
           \<and> status g' = (if GRID_ROWS \<le> current_row g + 1 then Lost else InProgress)
           \<and> entry_state g' = (if GRID_ROWS \<le> current_row g + 1 then Disabled else Normal)"
proof -
  have l: "length (lower U raw) = GRID_COLS"
    using valid by (simp add: valid_guess_def)
  have "\<exists>colors. feedback (secret g) (lower U raw) = Inr colors \<and> length colors = GRID_COLS
          \<and> (\<forall>j<GRID_COLS. (colors ! j = green)
                = (j < length (lower U raw) \<and> lower U raw ! j = secret g ! j))"
  proof (rule feedback_result)
    show "length (lower U raw) \<le> length (secret g)"
      using l len by simp
    show "length (lower U raw) \<le> GRID_COLS"
      using l by simp
  qed
  then obtain colors where fb: "feedback (secret g) (lower U raw) = Inr colors"
    by blast
  have p: "punctual g"
    using idle by (simp add: punctual_def)
  from turn_accepted [OF valid fb p] idle
  obtain g1 where t: "turn U raw g = Inr (after_guess U (lower U raw) g1)"
    and s: "secret g1 = secret g" "word_set g1 = word_set g" "pending g1 = []"
      "current_row g1 = current_row g"
    by blast
  from s(1) miss have "lower U raw \<noteq> secret g1"
    by simp
  from after_guess_missed [OF this, of U] t s show ?thesis
    by simp
qed

lemma play_misses:
  assumes "pending g = []" and "length (secret g) = GRID_COLS"
    and "\<forall>raw\<in>set raws. valid_guess U g raw \<and> lower U raw \<noteq> secret g" and "raws \<noteq> []"
  shows "\<exists>g'. play U raws g = Inr g' \<and> current_row g' = current_row g + length raws
           \<and> status g' = (if GRID_ROWS \<le> current_row g + length raws then Lost else InProgress)
           \<and> entry_state g' = (if GRID_ROWS \<le> current_row g + length raws then Disabled else Normal)"
  using assms
proof (induction raws arbitrary: g)
  case Nil
  then show ?case by simp
next
  case (Cons raw raws)
  have v: "valid_guess U g raw" and m: "lower U raw \<noteq> secret g"
    using Cons.prems(3) by simp_all
  from turn_missed [OF v Cons.prems(1) Cons.prems(2) m]
  obtain g1 where t: "turn U raw g = Inr g1" and row: "current_row g1 = current_row g + 1"
    and sec: "secret g1 = secret g" and ws: "word_set g1 = word_set g" and idle: "pending g1 = []"
    and st: "status g1 = (if GRID_ROWS \<le> current_row g + 1 then Lost else InProgress)"
    and en: "entry_state g1 = (if GRID_ROWS \<le> current_row g + 1 then Disabled else Normal)"
    by blast
  have p: "play U (raw # raws) g = play U raws g1"
    by (simp add: t)
  show ?case
  proof (cases "raws = []")
    case True
    with p row st en show ?thesis by simp
  next
    case False
    have "\<exists>g'. play U raws g1 = Inr g' \<and> current_row g' = current_row g1 + length raws
            \<and> status g' = (if GRID_ROWS \<le> current_row g1 + length raws then Lost else InProgress)
            \<and> entry_state g' = (if GRID_ROWS \<le> current_row g1 + length raws then Disabled else Normal)"
    proof (rule Cons.IH)
      show "pending g1 = []" by (rule idle)
      show "length (secret g1) = GRID_COLS"
        using Cons.prems(2) sec by simp
      show "\<forall>raw\<in>set raws. valid_guess U g1 raw \<and> lower U raw \<noteq> secret g1"
        using Cons.prems(3) sec valid_guess_word_set [OF ws] by simp
      show "raws \<noteq> []" by (rule False)
    qed
    with p row show ?thesis by simp
  qed
qed

text \<open>
  From the first row of a game with no callback pending, six accepted guesses that all
  miss the secret: after the \<open>n\<close>-th of them the current row is \<open>n\<close>, and the game is
  lost, with the entry disabled, exactly when \<open>n\<close> is six.
\<close>

lemma misses_without_pending_callbacks:
  assumes "current_row g = 0" and "pending g = []" and "length (secret g) = GRID_COLS"
    and "length raws = GRID_ROWS"
    and "\<forall>raw\<in>set raws. valid_guess U g raw \<and> lower U raw \<noteq> secret g"
  shows "\<forall>n. 1 \<le> n \<and> n \<le> GRID_ROWS \<longrightarrow>
           (\<exists>g'. play U (take n raws) g = Inr g' \<and> current_row g' = n
              \<and> status g' = (if n = GRID_ROWS then Lost else InProgress)
              \<and> entry_state g' = (if n = GRID_ROWS then Disabled else Normal))"
proof (intro allI impI)
  fix n
  assume n: "1 \<le> n \<and> n \<le> GRID_ROWS"
  have len: "length (take n raws) = n"
    using n assms(4) by simp
  have "\<exists>g'. play U (take n raws) g = Inr g'
          \<and> current_row g' = current_row g + length (take n raws)
          \<and> status g' = (if GRID_ROWS \<le> current_row g + length (take n raws) then Lost else InProgress)
          \<and> entry_state g' = (if GRID_ROWS \<le> current_row g + length (take n raws) then Disabled else Normal)"
  proof (rule play_misses)
    show "pending g = []" by (rule assms(2))
    show "length (secret g) = GRID_COLS" by (rule assms(3))
    show "\<forall>raw\<in>set (take n raws). valid_guess U g raw \<and> lower U raw \<noteq> secret g"
      using assms(5) by (meson in_set_takeD)
    show "take n raws \<noteq> []"
      using len n by auto
  qed
  then obtain g' where g': "play U (take n raws) g = Inr g'" "current_row g' = n"
    "status g' = (if GRID_ROWS \<le> n then Lost else InProgress)"
    "entry_state g' = (if GRID_ROWS \<le> n then Disabled else Normal)"
    unfolding len assms(1) by auto
  have "(GRID_ROWS \<le> n) = (n = GRID_ROWS)"
    using n by auto
  with g' show "\<exists>g'. play U (take n raws) g = Inr g' \<and> current_row g' = n
              \<and> status g' = (if n = GRID_ROWS then Lost else InProgress)
              \<and> entry_state g' = (if n = GRID_ROWS then Disabled else Normal)"
    by simp
qed

text \<open>
  A rejected guess, with no callback due: the message is set, the callback that puts the
  window back is scheduled, and nothing else changes.
\<close>

lemma rejected_guess_when_idle:
  assumes "\<not> valid_guess U g (entry_text g)" and "\<forall>p\<in>set (pending g). \<not> due g p"
  shows "\<exists>msg\<in>{lit ''Enter exactly 5 letters'', lit ''Letters only, please'', lit ''Not a valid word''}.
           submit_guess U g
             = Inr (g\<lparr>message := msg, pending := pending g @ [(now g + 100, Geometry)]\<rparr>)
           \<and> status (g\<lparr>message := msg, pending := pending g @ [(now g + 100, Geometry)]\<rparr>) = InProgress"
proof -
  let ?guess = "lower U (entry_text g)"
  let ?out = "\<lambda>msg. g\<lparr>message := msg, pending := pending g @ [(now g + 100, Geometry)]\<rparr>"
  have st: "status (?out msg) = InProgress"
    if "msg \<in> {lit ''Enter exactly 5 letters'', lit ''Letters only, please'', lit ''Not a valid word''}"
    for msg
  proof (rule status_rejected)
    show "message (?out msg)
        \<in> {lit ''Enter exactly 5 letters'', lit ''Letters only, please'', lit ''Not a valid word''}"
      using that by simp
  qed
  consider (len) "length ?guess \<noteq> GRID_COLS"
    | (alpha) "length ?guess = GRID_COLS" "\<not> isalpha U ?guess"
    | (dict) "length ?guess = GRID_COLS" "isalpha U ?guess" "?guess \<notin> word_set g"
    using assms(1) by (auto simp: valid_guess_def)
  then show ?thesis
  proof cases
    case len
    then have "submit_guess U g = Inr (?out (lit ''Enter exactly 5 letters''))"
      by (simp add: submit_guess_def reject_guess_idle [OF assms(2)])
    with st [of "lit ''Enter exactly 5 letters''"] show ?thesis by blast
  next
    case alpha
    then have "submit_guess U g = Inr (?out (lit ''Letters only, please''))"
      by (simp add: submit_guess_def reject_guess_idle [OF assms(2)])
    with st [of "lit ''Letters only, please''"] show ?thesis by blast
  next
    case dict
    then have "submit_guess U g = Inr (?out (lit ''Not a valid word''))"
      by (simp add: submit_guess_def reject_guess_idle [OF assms(2)])
    with st [of "lit ''Not a valid word''"] show ?thesis by blast
  qed
qed

section \<open>Turns lead from reachable states to reachable states\<close>

lemma fire_pending: "fire U cb (g\<lparr>pending := ps\<rparr>) = (fire U cb g)\<lparr>pending := ps\<rparr>"
  by (cases cb) (simp_all add: after_guess_def Let_def)

lemma due_fire [simp]: "due (fire U cb g) = due g"
  by (rule ext) (simp add: due_def)

lemma reachable_fire_all:
  assumes "reachable U top_n_list zipf_frequency (g\<lparr>pending := Q\<rparr>)"
    and "mset (filter (due g) Q) = mset S"
  shows "reachable U top_n_list zipf_frequency
           (fold (\<lambda>(t, cb). fire U cb) S (g\<lparr>pending := filter (\<lambda>p. \<not> due g p) Q\<rparr>))"
  using assms
proof (induction S arbitrary: g Q)
  case Nil
  from Nil.prems(2) have "filter (due g) Q = []"
    by (simp only: mset_zero_iff list.simps mset.simps)
  then have "filter (\<lambda>p. \<not> due g p) Q = Q"
    by (simp add: filter_empty_conv filter_id_conv)
  with Nil.prems(1) show ?case
    by simp
next
  case (Cons p S)
  obtain t cb where p: "p = (t, cb)"
    by (cases p)
  have "p \<in># mset (filter (due g) Q)"
    unfolding Cons.prems(2) by simp
  then have pQ: "p \<in> set Q" and pd: "due g p"
    by simp_all
  have mem: "(t, cb) \<in> set (pending (g\<lparr>pending := Q\<rparr>))"
    using pQ by (simp add: p)
  have d: "t \<le> now (g\<lparr>pending := Q\<rparr>)"
    using pd by (simp add: p due_def)
  from reach_timer [OF Cons.prems(1) mem d]
  have r: "reachable U top_n_list zipf_frequency ((fire U cb g)\<lparr>pending := remove1 p Q\<rparr>)"
    by (simp add: fire_pending p)
  have "mset (filter (due g) (remove1 p Q)) = mset (filter (due g) Q) - {#p#}"
    by (simp add: filter_remove1)
  then have m: "mset (filter (due (fire U cb g)) (remove1 p Q)) = mset S"
    unfolding Cons.prems(2) by simp
  have "p \<notin> set (filter (\<lambda>p. \<not> due g p) Q)"
    using pd by simp
  then have n: "filter (\<lambda>p. \<not> due (fire U cb g) p) (remove1 p Q) = filter (\<lambda>p. \<not> due g p) Q"
    by (simp add: filter_remove1 remove1_idem)
  from Cons.IH [OF r m] show ?case
    unfolding n by (simp add: p fire_pending)
qed

lemma update_reachable:
  assumes "reachable U top_n_list zipf_frequency g"
  shows "reachable U top_n_list zipf_frequency (update U g)"
proof -
  have "reachable U top_n_list zipf_frequency (g\<lparr>pending := pending g\<rparr>)"
    using assms by simp
  moreover have "mset (filter (due g) (pending g)) = mset (sort_key fst (filter (due g) (pending g)))"
    by simp
  ultimately show ?thesis
    unfolding update_def by (rule reachable_fire_all)
qed

lemma fold_max_ge: "n \<le> fold max ts (n::nat)"
proof -
  have "n \<le> Max (set (n # ts))"
    by simp
  then show ?thesis
    by (simp only: Max.set_eq_fold)
qed

lemma run_timers_reachable:
  assumes "reachable U top_n_list zipf_frequency g"
  shows "reachable U top_n_list zipf_frequency (run_timers U g)"
proof -
  let ?T = "fold max (map fst (pending g)) (now g)"
  from reach_tick [OF assms, of "?T - now g"] fold_max_ge [of "now g" "map fst (pending g)"]
  have "reachable U top_n_list zipf_frequency (g\<lparr>now := ?T\<rparr>)"
    by simp
  then show ?thesis
    unfolding run_timers_def by (rule update_reachable)
qed

text \<open>
  A turn in an entry that accepts input leads from a reachable state to a reachable
  state.
\<close>

lemma turn_reachable:
  assumes "reachable U top_n_list zipf_frequency g" and "entry_state g = Normal"
    and "turn U raw g = Inr g'"
  shows "reachable U top_n_list zipf_frequency g'"
proof -
  from reach_edit [OF assms(1,2), of raw]
  have e: "reachable U top_n_list zipf_frequency (g\<lparr>entry_text := raw\<rparr>)" .
  from assms(3) obtain g1 where s: "submit_guess U (g\<lparr>entry_text := raw\<rparr>) = Inr g1"
    and g': "g' = run_timers U g1"
    by (auto simp: turn_def split: sum.splits)
  from run_timers_reachable [OF reach_return [OF e s]] g' show ?thesis
    by simp
qed

lemma play_reachable:
  assumes "reachable U top_n_list zipf_frequency g" and "playable U raws g"
    and "play U raws g = Inr g'"
  shows "reachable U top_n_list zipf_frequency g'"
  using assms
proof (induction raws arbitrary: g)
  case Nil
  then show ?case by simp
next
  case (Cons raw raws)
  from Cons.prems(3) obtain g1 where t: "turn U raw g = Inr g1" and p: "play U raws g1 = Inr g'"
    by (auto split: sum.splits)
  from Cons.prems(2) t have n: "entry_state g = Normal" and q: "playable U raws g1"
    by simp_all
  from turn_reachable [OF Cons.prems(1) n t] have "reachable U top_n_list zipf_frequency g1" .
  from Cons.IH [OF this q p] show ?case .
qed

section \<open>Facts about the games on the small dictionary\<close>

lemma ex_list_lower: "\<forall>v\<in>set (ex_top_n_list WORDS_SAMPLE). lower ascii v = v"
  by code_simp

lemma ex_game_reachable: "reachable ascii ex_top_n_list ex_zipf_frequency ex_game"
proof (rule reach_init)
  show "init ascii ex_top_n_list ex_zipf_frequency 1 = Inr ex_game"
    by code_simp
qed

lemma ex_game_new_reachable: "reachable ascii ex_top_n_list ex_zipf_frequency ex_game_new"
proof -
  let ?R = "reachable ascii ex_top_n_list ex_zipf_frequency"
  have "entry_state ex_game = Normal"
    by code_simp
  from reach_edit [OF ex_game_reachable this, of "lit ''crane''"]
  have 1: "?R (ex_game\<lparr>entry_text := lit ''crane''\<rparr>)" .
  have 2: "submit_guess ascii (ex_game\<lparr>entry_text := lit ''crane''\<rparr>) = Inr ex_game_anim"
    by code_simp
  from reach_return [OF 1 2] have 3: "?R ex_game_anim" .
  have "(0, Paint 0 gray) \<in> set (pending ex_game_anim)" "0 \<le> now ex_game_anim"
    by code_simp+
  from reach_timer [OF 3 this]
  have 4: "?R (fire ascii (Paint 0 gray)
                (ex_game_anim\<lparr>pending := remove1 (0, Paint 0 gray) (pending ex_game_anim)\<rparr>))" .
  from reach_tick [OF 4, of 100]
  have 5: "?R ((fire ascii (Paint 0 gray)
                (ex_game_anim\<lparr>pending := remove1 (0, Paint 0 gray) (pending ex_game_anim)\<rparr>))
              \<lparr>now := now (fire ascii (Paint 0 gray)
                (ex_game_anim\<lparr>pending := remove1 (0, Paint 0 gray) (pending ex_game_anim)\<rparr>)) + 100\<rparr>)" .
  have 6: "start_game 1 ((fire ascii (Paint 0 gray)
                (ex_game_anim\<lparr>pending := remove1 (0, Paint 0 gray) (pending ex_game_anim)\<rparr>))
              \<lparr>now := now (fire ascii (Paint 0 gray)
                (ex_game_anim\<lparr>pending := remove1 (0, Paint 0 gray) (pending ex_game_anim)\<rparr>)) + 100\<rparr>)
            = Inr ex_game_new"
    by code_simp
  from reach_new_game [OF 5 6] show ?thesis .
qed

lemma ex_game_due_reachable: "reachable ascii ex_top_n_list ex_zipf_frequency ex_game_due"
proof -
  from reach_tick [OF ex_game_new_reachable, of 850]
  have 1: "reachable ascii ex_top_n_list ex_zipf_frequency (ex_game_new\<lparr>now := now ex_game_new + 850\<rparr>)" .
  have "entry_state (ex_game_new\<lparr>now := now ex_game_new + 850\<rparr>) = Normal"
    by code_simp
  from reach_edit [OF 1 this, of "lit ''zzzzz''"]
  have "reachable ascii ex_top_n_list ex_zipf_frequency
          (ex_game_new\<lparr>now := now ex_game_new + 850, entry_text := lit ''zzzzz''\<rparr>)" .
  moreover have "ex_game_new\<lparr>now := now ex_game_new + 850, entry_text := lit ''zzzzz''\<rparr> = ex_game_due"
    by code_simp
  ultimately show ?thesis
    by simp
qed

lemma ex_game_row5_reachable: "reachable ascii ex_top_n_list ex_zipf_frequency ex_game_row5"
proof (rule play_reachable [OF ex_game_reachable])
  show "playable ascii ex_misses ex_game"
    by code_simp
  show "play ascii ex_misses ex_game = Inr ex_game_row5"
    by code_simp
qed


section \<open>The claims\<close>

text \<open>
  Claim C1. With the secret \<^verbatim>\<open>ALLOY\<close> and the guess \<^verbatim>\<open>LLAMA\<close>, both in the lower
  case the code compares them in, the first loop marks position 1 alone and uses up that
  \<^verbatim>\<open>L\<close> of the secret, and \<^verbatim>\<open>_feedback\<close> returns yellow, green, yellow, gray, gray:
  Present, Correct, Present, Absent, Absent.
\<close>

theorem feedback_alloy_llama:
  "lower ascii (lit ''ALLOY'') = lit ''alloy'' \<and> lower ascii (lit ''LLAMA'') = lit ''llama''
   \<and> pass1 (lit ''alloy'') 0 (lit ''llama'') (replicate GRID_COLS gray) (map Some (lit ''alloy''))
       = Inr ([gray, green, gray, gray, gray],
              [Some (of_char CHR ''a''), None, Some (of_char CHR ''l''), Some (of_char CHR ''o''),
               Some (of_char CHR ''y'')])
   \<and> feedback (lower ascii (lit ''ALLOY'')) (lower ascii (lit ''LLAMA''))
       = Inr [yellow, green, yellow, gray, gray]
   \<and> map verdict_of [yellow, green, yellow, gray, gray]
       = [Present, Correct, Present, Absent, Absent]"
  by code_simp

text \<open>
  Claim C2. For a secret and a guess that are words of the game, of \<open>GRID_COLS\<close>
  characters each, \<^verbatim>\<open>_feedback\<close> returns, and returns as many verdicts as the guess has
  characters; the number of Correct verdicts among them is the number of positions where
  the two words agree.
\<close>

theorem feedback_length_and_correct_count:
  assumes "length s = length guess" and "length guess = GRID_COLS"
  shows "\<exists>colors. feedback s guess = Inr colors \<and> length colors = length guess
           \<and> length (filter (\<lambda>c. verdict_of c = Correct) colors)
               = card {j. j < length guess \<and> s ! j = guess ! j}"
proof -
  have "length guess \<le> length s" "length guess \<le> GRID_COLS"
    using assms by simp_all
  from feedback_result [OF this]
  obtain colors where c: "feedback s guess = Inr colors" and len: "length colors = GRID_COLS"
    and col: "\<forall>j<GRID_COLS. (colors ! j = green) = (j < length guess \<and> guess ! j = s ! j)"
    by blast
  have "{j. j < length colors \<and> colors ! j = green} = {j. j < length guess \<and> s ! j = guess ! j}"
  proof (rule set_eqI)
    fix j
    show "(j \<in> {j. j < length colors \<and> colors ! j = green})
        = (j \<in> {j. j < length guess \<and> s ! j = guess ! j})"
    proof (cases "j < GRID_COLS")
      case True
      with col have "(colors ! j = green) = (j < length guess \<and> guess ! j = s ! j)"
        by blast
      with True len show ?thesis by auto
    next
      case False
      with assms(2) have "\<not> j < length guess" by simp
      with False len show ?thesis by simp
    qed
  qed
  then have "length (filter (\<lambda>c. c = green) colors) = card {j. j < length guess \<and> s ! j = guess ! j}"
    by (simp add: length_filter_conv_card)
  then have "length (filter (\<lambda>c. verdict_of c = Correct) colors)
               = card {j. j < length guess \<and> s ! j = guess ! j}"
    by (simp add: verdict_Correct)
  with c len assms(2) show ?thesis by simp
qed

theorem feedback_length_and_correct_count_witness:
  "length (lit ''crane'') = length (lit ''trace'') \<and> length (lit ''trace'') = GRID_COLS
   \<and> feedback (lit ''crane'') (lit ''trace'') = Inr [gray, green, green, yellow, green]
   \<and> length [gray, green, green, yellow, green] = length (lit ''trace'')
   \<and> length (filter (\<lambda>c. verdict_of c = Correct) [gray, green, green, yellow, green])
       = card {j. j < length (lit ''trace'') \<and> lit ''crane'' ! j = lit ''trace'' ! j}"
proof -
  have h: "length (lit ''crane'') = length (lit ''trace'')" "length (lit ''trace'') = GRID_COLS"
    by (simp_all add: GRID_COLS_def lit_def)
  have e: "feedback (lit ''crane'') (lit ''trace'') = Inr [gray, green, green, yellow, green]"
    by code_simp
  from feedback_length_and_correct_count [OF h] obtain colors where
    c: "feedback (lit ''crane'') (lit ''trace'') = Inr colors"
      "length colors = length (lit ''trace'')"
      "length (filter (\<lambda>c. verdict_of c = Correct) colors)
         = card {j. j < length (lit ''trace'') \<and> lit ''crane'' ! j = lit ''trace'' ! j}"
    by blast
  from c(1) e have "colors = [gray, green, green, yellow, green]"
    by simp
  with c(2,3) h e show ?thesis
    by blast
qed

text \<open>
  Claim C3. \<^verbatim>\<open>_submit_guess\<close> checks the length first, then the letters, then the
  dictionary, and the first check that fails decides the message \<^verbatim>\<open>_reject_guess\<close> is
  called with, one message for each check: a guess of another length than five is told
  \<^verbatim>\<open>Enter exactly 5 letters\<close> whatever its characters, and a guess of five letters
  outside the word set is told \<^verbatim>\<open>Not a valid word\<close>. That message is on the label when
  \<^verbatim>\<open>_reject_guess\<close> returns, no callback being due during the shake.
\<close>

theorem validation_order:
  "(length (lower U (entry_text g)) \<noteq> GRID_COLS
      \<longrightarrow> submit_guess U g = Inr (reject_guess U (lit ''Enter exactly 5 letters'') g))
   \<and> (length (lower U (entry_text g)) = GRID_COLS \<and> \<not> isalpha U (lower U (entry_text g))
      \<longrightarrow> submit_guess U g = Inr (reject_guess U (lit ''Letters only, please'') g))
   \<and> (length (lower U (entry_text g)) = GRID_COLS \<and> isalpha U (lower U (entry_text g))
        \<and> lower U (entry_text g) \<notin> word_set g
      \<longrightarrow> submit_guess U g = Inr (reject_guess U (lit ''Not a valid word'') g))
   \<and> distinct [lit ''Enter exactly 5 letters'', lit ''Letters only, please'', lit ''Not a valid word'']
   \<and> ((\<forall>p\<in>set (pending g). \<not> due g p) \<longrightarrow> message (reject_guess U msg g) = msg)"
proof (intro conjI impI)
  show "distinct [lit ''Enter exactly 5 letters'', lit ''Letters only, please'', lit ''Not a valid word'']"
    by (rule messages_distinct)
next
  assume "\<forall>p\<in>set (pending g). \<not> due g p"
  from reject_guess_idle [OF this] show "message (reject_guess U msg g) = msg"
    by simp
qed (simp_all add: submit_guess_def)

theorem validation_order_witness:
  "submit_guess ascii (ex_game\<lparr>entry_text := lit ''a1''\<rparr>)
     = Inr (ex_game\<lparr>entry_text := lit ''a1'', message := lit ''Enter exactly 5 letters'',
                    pending := [(100, Geometry)]\<rparr>)
   \<and> submit_guess ascii (ex_game\<lparr>entry_text := lit ''a1b2c''\<rparr>)
     = Inr (ex_game\<lparr>entry_text := lit ''a1b2c'', message := lit ''Letters only, please'',
                    pending := [(100, Geometry)]\<rparr>)
   \<and> submit_guess ascii (ex_game\<lparr>entry_text := lit ''zzzzz''\<rparr>)
     = Inr (ex_game\<lparr>entry_text := lit ''zzzzz'', message := lit ''Not a valid word'',
                    pending := [(100, Geometry)]\<rparr>)
   \<and> message (reject_guess ascii (lit ''Not a valid word'') (ex_game\<lparr>entry_text := lit ''zzzzz''\<rparr>))
     = lit ''Not a valid word''"
proof -
  let ?a = "ex_game\<lparr>entry_text := lit ''a1''\<rparr>"
  let ?b = "ex_game\<lparr>entry_text := lit ''a1b2c''\<rparr>"
  let ?c = "ex_game\<lparr>entry_text := lit ''zzzzz''\<rparr>"
  have a: "length (lower ascii (entry_text ?a)) \<noteq> GRID_COLS"
    by code_simp
  have b: "length (lower ascii (entry_text ?b)) = GRID_COLS \<and> \<not> isalpha ascii (lower ascii (entry_text ?b))"
    by code_simp
  have c: "length (lower ascii (entry_text ?c)) = GRID_COLS \<and> isalpha ascii (lower ascii (entry_text ?c))
           \<and> lower ascii (entry_text ?c) \<notin> word_set ?c"
    by code_simp
  have i: "\<forall>p\<in>set (pending ?c). \<not> due ?c p"
    by code_simp
  have ra: "reject_guess ascii (lit ''Enter exactly 5 letters'') ?a
              = ex_game\<lparr>entry_text := lit ''a1'', message := lit ''Enter exactly 5 letters'',
                        pending := [(100, Geometry)]\<rparr>"
    by code_simp
  have rb: "reject_guess ascii (lit ''Letters only, please'') ?b
              = ex_game\<lparr>entry_text := lit ''a1b2c'', message := lit ''Letters only, please'',
                        pending := [(100, Geometry)]\<rparr>"
    by code_simp
  have rc: "reject_guess ascii (lit ''Not a valid word'') ?c
              = ex_game\<lparr>entry_text := lit ''zzzzz'', message := lit ''Not a valid word'',
                        pending := [(100, Geometry)]\<rparr>"
    by code_simp
  from validation_order [of ascii ?a] a
  have 1: "submit_guess ascii ?a = Inr (reject_guess ascii (lit ''Enter exactly 5 letters'') ?a)"
    by blast
  from validation_order [of ascii ?b] b
  have 2: "submit_guess ascii ?b = Inr (reject_guess ascii (lit ''Letters only, please'') ?b)"
    by blast
  from validation_order [of ascii ?c "lit ''Not a valid word''"] c i
  have 3: "submit_guess ascii ?c = Inr (reject_guess ascii (lit ''Not a valid word'') ?c)"
    and 4: "message (reject_guess ascii (lit ''Not a valid word'') ?c) = lit ''Not a valid word''"
    by blast+
  from 1 2 3 4 show ?thesis
    unfolding ra rb rc by blast
qed

text \<open>
  Claim C4. The claim fails on the code once \<^verbatim>\<open>New Game\<close> is clicked while the
  callbacks of a guess are pending: \<^verbatim>\<open>_start_game\<close> cancels none of them, and the
  \<^verbatim>\<open>_after_guess\<close> of the old game counts a row of the new one. Here the first game
  has the secret \<^verbatim>\<open>alloy\<close>, the player enters \<^verbatim>\<open>crane\<close> and clicks
  \<^verbatim>\<open>New Game\<close> a hundred milliseconds later; the state this leads to is a fresh game
  in its first row. Five accepted guesses follow, none of them the secret: after the first
  the current row is 2, not 1, and with the fifth, not the sixth, the game is lost.
\<close>

theorem new_game_during_animation_loses_early:
  "reachable ascii ex_top_n_list ex_zipf_frequency ex_game_new
   \<and> submit_guess ascii (ex_game\<lparr>entry_text := lit ''crane''\<rparr>) = Inr ex_game_anim
   \<and> start_game 1 (ex_game_anim\<lparr>now := 100, pending := tl (pending ex_game_anim)\<rparr>) = Inr ex_game_new
   \<and> current_row ex_game_new = 0 \<and> status ex_game_new = InProgress
   \<and> entry_state ex_game_new = Normal \<and> entry_text ex_game_new = []
   \<and> tiles ex_game_new = ex_tiles
   \<and> list_all (\<lambda>raw. valid_guess ascii ex_game_new raw \<and> lower ascii raw \<noteq> secret ex_game_new)
        (map lit [''llama'', ''apple'', ''bolts'', ''stone'', ''mouse''])
   \<and> playable ascii (map lit [''llama'', ''apple'', ''bolts'', ''stone'', ''mouse'']) ex_game_new
   \<and> outcome (play ascii (map lit [''llama'']) ex_game_new) = Inr (2, InProgress, Normal)
   \<and> outcome (play ascii (map lit [''llama'', ''apple'', ''bolts'', ''stone'']) ex_game_new)
       = Inr (5, InProgress, Normal)
   \<and> outcome (play ascii (map lit [''llama'', ''apple'', ''bolts'', ''stone'', ''mouse'']) ex_game_new)
       = Inr (6, Lost, Disabled)"
proof -
  have "submit_guess ascii (ex_game\<lparr>entry_text := lit ''crane''\<rparr>) = Inr ex_game_anim
   \<and> start_game 1 (ex_game_anim\<lparr>now := 100, pending := tl (pending ex_game_anim)\<rparr>) = Inr ex_game_new
   \<and> current_row ex_game_new = 0 \<and> status ex_game_new = InProgress
   \<and> entry_state ex_game_new = Normal \<and> entry_text ex_game_new = []
   \<and> tiles ex_game_new = ex_tiles
   \<and> list_all (\<lambda>raw. valid_guess ascii ex_game_new raw \<and> lower ascii raw \<noteq> secret ex_game_new)
        (map lit [''llama'', ''apple'', ''bolts'', ''stone'', ''mouse''])
   \<and> playable ascii (map lit [''llama'', ''apple'', ''bolts'', ''stone'', ''mouse'']) ex_game_new
   \<and> outcome (play ascii (map lit [''llama'']) ex_game_new) = Inr (2, InProgress, Normal)
   \<and> outcome (play ascii (map lit [''llama'', ''apple'', ''bolts'', ''stone'']) ex_game_new)
       = Inr (5, InProgress, Normal)
   \<and> outcome (play ascii (map lit [''llama'', ''apple'', ''bolts'', ''stone'', ''mouse'']) ex_game_new)
       = Inr (6, Lost, Disabled)"
    by code_simp
  with ex_game_new_reachable show ?thesis
    by blast
qed

text \<open>
  Claim C5. In every state the application can reach, an accepted guess equal to the
  secret wins: when its \<^verbatim>\<open>_after_guess\<close> has run the message is
  \<^verbatim>\<open>You won in n+1 tries!\<close> for the current row \<open>n\<close> and the entry is disabled,
  whatever that row is, since \<^verbatim>\<open>_after_guess\<close> tests for the win before it counts the
  row and tests for the last row. With no callback pending when the guess is entered, the
  row is the one the guess was entered in; a callback of an earlier game that is still
  pending runs first and may have counted a row, and the guess wins all the same.
\<close>

theorem win_on_any_attempt:
  assumes "reachable U top_n_list zipf_frequency g" and "valid_guess U g raw"
    and "lower U raw = secret g"
  shows "\<exists>g' n. turn U raw g = Inr g' \<and> status g' = Won \<and> entry_state g' = Disabled
           \<and> message g' = lit ''You won in '' @ str (n + 1) @ lit '' tries!''
           \<and> current_row g' = n \<and> (pending g = [] \<longrightarrow> n = current_row g)"
proof -
  from reachable_punctual [OF assms(1)] have "punctual g" .
  from turn_won [OF assms(2) assms(3) this] show ?thesis
    by blast
qed

theorem win_on_any_attempt_witness:
  "reachable ascii ex_top_n_list ex_zipf_frequency ex_game
   \<and> valid_guess ascii ex_game (lit ''ALLOY'') \<and> lower ascii (lit ''ALLOY'') = secret ex_game
   \<and> pending ex_game = [] \<and> current_row ex_game = 0
   \<and> (\<exists>g'. turn ascii (lit ''ALLOY'') ex_game = Inr g' \<and> status g' = Won
         \<and> entry_state g' = Disabled \<and> message g' = lit ''You won in 1 tries!''
         \<and> current_row g' = 0)
   \<and> reachable ascii ex_top_n_list ex_zipf_frequency ex_game_row5
   \<and> valid_guess ascii ex_game_row5 (lit ''alloy'') \<and> lower ascii (lit ''alloy'') = secret ex_game_row5
   \<and> pending ex_game_row5 = [] \<and> current_row ex_game_row5 = 5
   \<and> (\<exists>g'. turn ascii (lit ''alloy'') ex_game_row5 = Inr g' \<and> status g' = Won
         \<and> entry_state g' = Disabled \<and> message g' = lit ''You won in 6 tries!''
         \<and> current_row g' = 5)
   \<and> reachable ascii ex_top_n_list ex_zipf_frequency ex_game_new
   \<and> valid_guess ascii ex_game_new (lit ''alloy'') \<and> lower ascii (lit ''alloy'') = secret ex_game_new
   \<and> pending ex_game_new \<noteq> [] \<and> current_row ex_game_new = 0
   \<and> (\<exists>g'. turn ascii (lit ''alloy'') ex_game_new = Inr g' \<and> status g' = Won
         \<and> entry_state g' = Disabled \<and> message g' = lit ''You won in 2 tries!''
         \<and> current_row g' = 1)"
proof -
  have s: "lit ''You won in '' @ str (0 + 1) @ lit '' tries!'' = lit ''You won in 1 tries!''"
    "lit ''You won in '' @ str (1 + 1) @ lit '' tries!'' = lit ''You won in 2 tries!''"
    "lit ''You won in '' @ str (5 + 1) @ lit '' tries!'' = lit ''You won in 6 tries!''"
    by code_simp+
  have h: "valid_guess ascii ex_game (lit ''ALLOY'')" "lower ascii (lit ''ALLOY'') = secret ex_game"
    by code_simp+
  have i: "pending ex_game = []" "current_row ex_game = 0"
    by code_simp+
  from win_on_any_attempt [OF ex_game_reachable h] i
  obtain g' where "turn ascii (lit ''ALLOY'') ex_game = Inr g'" "status g' = Won"
    "entry_state g' = Disabled" "message g' = lit ''You won in '' @ str (0 + 1) @ lit '' tries!''"
    "current_row g' = 0"
    by auto
  then have a: "\<exists>g'. turn ascii (lit ''ALLOY'') ex_game = Inr g' \<and> status g' = Won
         \<and> entry_state g' = Disabled \<and> message g' = lit ''You won in 1 tries!''
         \<and> current_row g' = 0"
    unfolding s by blast
  have h5: "valid_guess ascii ex_game_row5 (lit ''alloy'')"
    "lower ascii (lit ''alloy'') = secret ex_game_row5"
    by code_simp+
  have i5: "pending ex_game_row5 = []" "current_row ex_game_row5 = 5"
    by code_simp+
  from win_on_any_attempt [OF ex_game_row5_reachable h5] i5
  obtain g' where "turn ascii (lit ''alloy'') ex_game_row5 = Inr g'" "status g' = Won"
    "entry_state g' = Disabled" "message g' = lit ''You won in '' @ str (5 + 1) @ lit '' tries!''"
    "current_row g' = 5"
    by auto
  then have a5: "\<exists>g'. turn ascii (lit ''alloy'') ex_game_row5 = Inr g' \<and> status g' = Won
         \<and> entry_state g' = Disabled \<and> message g' = lit ''You won in 6 tries!''
         \<and> current_row g' = 5"
    unfolding s by blast
  have h': "valid_guess ascii ex_game_new (lit ''alloy'')"
    "lower ascii (lit ''alloy'') = secret ex_game_new"
    by code_simp+
  have i': "pending ex_game_new \<noteq> []" "current_row ex_game_new = 0"
    by code_simp+
  have o: "outcome (turn ascii (lit ''alloy'') ex_game_new) = Inr (1, Won, Disabled)"
    by code_simp
  from win_on_any_attempt [OF ex_game_new_reachable h']
  obtain g' n where t: "turn ascii (lit ''alloy'') ex_game_new = Inr g'" "status g' = Won"
    "entry_state g' = Disabled" "message g' = lit ''You won in '' @ str (n + 1) @ lit '' tries!''"
    "current_row g' = n"
    by blast
  from o t(1,5) have n: "n = 1"
    by (simp add: outcome_def)
  from t(4) have m: "message g' = lit ''You won in 2 tries!''"
    unfolding n s .
  from t(5) have r: "current_row g' = 1"
    unfolding n .
  from t(1,2,3) m r have b: "\<exists>g'. turn ascii (lit ''alloy'') ex_game_new = Inr g' \<and> status g' = Won
         \<and> entry_state g' = Disabled \<and> message g' = lit ''You won in 2 tries!''
         \<and> current_row g' = 1"
    by blast
  have 1: "reachable ascii ex_top_n_list ex_zipf_frequency ex_game
   \<and> valid_guess ascii ex_game (lit ''ALLOY'') \<and> lower ascii (lit ''ALLOY'') = secret ex_game
   \<and> pending ex_game = [] \<and> current_row ex_game = 0"
    using ex_game_reachable h i by simp
  have 2: "reachable ascii ex_top_n_list ex_zipf_frequency ex_game_row5
   \<and> valid_guess ascii ex_game_row5 (lit ''alloy'') \<and> lower ascii (lit ''alloy'') = secret ex_game_row5
   \<and> pending ex_game_row5 = [] \<and> current_row ex_game_row5 = 5"
    using ex_game_row5_reachable h5 i5 by simp
  have 3: "reachable ascii ex_top_n_list ex_zipf_frequency ex_game_new
   \<and> valid_guess ascii ex_game_new (lit ''alloy'') \<and> lower ascii (lit ''alloy'') = secret ex_game_new
   \<and> pending ex_game_new \<noteq> [] \<and> current_row ex_game_new = 0"
    using ex_game_new_reachable h' i' by simp
  from 1 a 2 a5 3 b show ?thesis
    by (simp only: simp_thms)
qed




text \<open>
  Claim C7. The claim fails on the code when a callback is due while the window shakes:
  \<^verbatim>\<open>self.update()\<close> in \<^verbatim>\<open>_shake\<close> runs it inside the rejected submission. In the
  fresh game above, 950 milliseconds after the Return of the old game, the five callbacks
  it has left are due. Return on \<^verbatim>\<open>zzzzz\<close>, which is no word of the list, is
  rejected, and when \<^verbatim>\<open>_submit_guess\<close> returns a tile of the first row is yellow, the
  current row is 1, the entry is empty and the message label is empty again.
\<close>

theorem rejected_guess_runs_due_callbacks:
  "reachable ascii ex_top_n_list ex_zipf_frequency ex_game_due
   \<and> \<not> valid_guess ascii ex_game_due (entry_text ex_game_due)
   \<and> current_row ex_game_due = 0 \<and> tiles ex_game_due = ex_tiles
   \<and> entry_text ex_game_due = lit ''zzzzz''
   \<and> submit_guess ascii ex_game_due = Inr ex_game_shaken
   \<and> current_row ex_game_shaken = 1
   \<and> tiles ex_game_shaken = ex_tiles[0 := [gray, gray, yellow, gray, gray]]
   \<and> entry_text ex_game_shaken = [] \<and> message ex_game_shaken = []"
proof -
  have "\<not> valid_guess ascii ex_game_due (entry_text ex_game_due)
   \<and> current_row ex_game_due = 0 \<and> tiles ex_game_due = ex_tiles
   \<and> entry_text ex_game_due = lit ''zzzzz''
   \<and> submit_guess ascii ex_game_due = Inr ex_game_shaken
   \<and> current_row ex_game_shaken = 1
   \<and> tiles ex_game_shaken = ex_tiles[0 := [gray, gray, yellow, gray, gray]]
   \<and> entry_text ex_game_shaken = [] \<and> message ex_game_shaken = []"
    by code_simp
  with ex_game_due_reachable show ?thesis
    by blast
qed

text \<open>
  Claim C8, as amended. \<^verbatim>\<open>_submit_guess\<close> puts the text of the entry into lower case
  and does nothing else to it. A guess that passes the checks is accepted; two texts with
  the same lower case are accepted or rejected alike, so the case of the letters does not
  matter; and the text is not trimmed: it is its whole length, spaces included, that must
  be five, and any other length is rejected with \<^verbatim>\<open>Enter exactly 5 letters\<close>.
\<close>

theorem accepted_in_any_case_untrimmed:
  "(valid_guess U g raw \<and> feedback (secret g) (lower U raw) = Inr colors \<longrightarrow>
      submit_guess U (g\<lparr>entry_text := raw\<rparr>) =
        Inr (g\<lparr>entry_text := raw,
               pending := pending g @ scheduled (now g) colors (lower U raw),
               entry_state := Disabled\<rparr>))
   \<and> (lower U raw' = lower U raw \<longrightarrow> valid_guess U g raw' = valid_guess U g raw)
   \<and> (length (lower U raw) \<noteq> GRID_COLS \<longrightarrow>
        submit_guess U (g\<lparr>entry_text := raw\<rparr>) =
          Inr (reject_guess U (lit ''Enter exactly 5 letters'') (g\<lparr>entry_text := raw\<rparr>)))"
proof (intro conjI impI)
  assume a: "valid_guess U g raw \<and> feedback (secret g) (lower U raw) = Inr colors"
  let ?g = "g\<lparr>entry_text := raw\<rparr>"
  have v: "valid_guess U ?g (entry_text ?g)"
    using a by (simp add: valid_guess_def)
  have f: "feedback (secret ?g) (lower U (entry_text ?g)) = Inr colors"
    using a by simp
  from submit_accepted [OF v f]
  show "submit_guess U (g\<lparr>entry_text := raw\<rparr>) =
        Inr (g\<lparr>entry_text := raw,
               pending := pending g @ scheduled (now g) colors (lower U raw),
               entry_state := Disabled\<rparr>)"
    by simp
next
  assume "lower U raw' = lower U raw"
  then show "valid_guess U g raw' = valid_guess U g raw"
    by (simp add: valid_guess_def)
next
  assume "length (lower U raw) \<noteq> GRID_COLS"
  then show "submit_guess U (g\<lparr>entry_text := raw\<rparr>) =
          Inr (reject_guess U (lit ''Enter exactly 5 letters'') (g\<lparr>entry_text := raw\<rparr>))"
    by (simp add: submit_guess_def)
qed

theorem accepted_in_any_case_untrimmed_witness:
  "valid_guess ascii ex_game (lit ''CrAnE'')
   \<and> feedback (secret ex_game) (lower ascii (lit ''CrAnE'')) = Inr [gray, gray, yellow, gray, gray]
   \<and> submit_guess ascii (ex_game\<lparr>entry_text := lit ''CrAnE''\<rparr>) =
        Inr (ex_game\<lparr>entry_text := lit ''CrAnE'',
               pending := pending ex_game
                 @ scheduled (now ex_game) [gray, gray, yellow, gray, gray] (lower ascii (lit ''CrAnE'')),
               entry_state := Disabled\<rparr>)
   \<and> lower ascii (lit ''CRANE'') = lower ascii (lit ''CrAnE'')
   \<and> valid_guess ascii ex_game (lit ''CRANE'')
   \<and> length (lower ascii (lit ''crane '')) \<noteq> GRID_COLS
   \<and> submit_guess ascii (ex_game\<lparr>entry_text := lit ''crane ''\<rparr>) =
        Inr (reject_guess ascii (lit ''Enter exactly 5 letters'') (ex_game\<lparr>entry_text := lit ''crane ''\<rparr>))"
proof -
  have h: "valid_guess ascii ex_game (lit ''CrAnE'')
           \<and> feedback (secret ex_game) (lower ascii (lit ''CrAnE'')) = Inr [gray, gray, yellow, gray, gray]"
    "lower ascii (lit ''CRANE'') = lower ascii (lit ''CrAnE'')"
    "length (lower ascii (lit ''crane '')) \<noteq> GRID_COLS"
    by code_simp+
  note t1 = accepted_in_any_case_untrimmed [of ascii ex_game "lit ''CrAnE''"
      "[gray, gray, yellow, gray, gray]" "lit ''CRANE''"]
  note t2 = accepted_in_any_case_untrimmed [of ascii ex_game "lit ''crane ''"
      "[gray, gray, yellow, gray, gray]" "lit ''crane ''"]
  from t1 h(1) have a: "submit_guess ascii (ex_game\<lparr>entry_text := lit ''CrAnE''\<rparr>) =
        Inr (ex_game\<lparr>entry_text := lit ''CrAnE'',
               pending := pending ex_game
                 @ scheduled (now ex_game) [gray, gray, yellow, gray, gray] (lower ascii (lit ''CrAnE'')),
               entry_state := Disabled\<rparr>)"
    by blast
  from t1 h(1,2) have b: "valid_guess ascii ex_game (lit ''CRANE'')"
    by blast
  from t2 h(3) have c: "submit_guess ascii (ex_game\<lparr>entry_text := lit ''crane ''\<rparr>) =
        Inr (reject_guess ascii (lit ''Enter exactly 5 letters'') (ex_game\<lparr>entry_text := lit ''crane ''\<rparr>))"
    by blast
  from a b c h show ?thesis by blast
qed

text \<open>
  The claim as stated fails: \<^verbatim>\<open>crane\<close> is accepted, and with a space before it
  the same word is rejected. Pasted into the entry, the six characters are rejected for
  their length; typed, they are cut to five by \<^verbatim>\<open>_on_key\<close> and rejected for the
  space, which is no letter.
\<close>

theorem trimmed_guess_counterexample:
  "valid_guess ascii ex_game (lit ''crane'')
   \<and> submit_guess ascii (ex_game\<lparr>entry_text := lit ''crane''\<rparr>) = Inr ex_game_anim
   \<and> submit_guess ascii (ex_game\<lparr>entry_text := lit '' crane''\<rparr>)
       = Inr (ex_game\<lparr>entry_text := lit '' crane'', message := lit ''Enter exactly 5 letters'',
                      pending := [(100, Geometry)]\<rparr>)
   \<and> on_key ascii (ex_game\<lparr>entry_text := lit '' crane''\<rparr>) = ex_game\<lparr>entry_text := lit '' CRAN''\<rparr>
   \<and> submit_guess ascii (ex_game\<lparr>entry_text := lit '' CRAN''\<rparr>)
       = Inr (ex_game\<lparr>entry_text := lit '' CRAN'', message := lit ''Letters only, please'',
                      pending := [(100, Geometry)]\<rparr>)"
  by code_simp



text \<open>
  Claim C10. For a list of \<^verbatim>\<open>wordfreq\<close>, whose words are in lower case, in every
  state the application can reach the secret is a word of the word set, it passes the
  three checks of \<^verbatim>\<open>_submit_guess\<close> when it is entered as a guess, and entering it wins
  the game.
\<close>

theorem secret_always_winnable:
  assumes "\<forall>v\<in>set (top_n_list WORDS_SAMPLE). lower U v = v"
    and "reachable U top_n_list zipf_frequency g"
  shows "secret g \<in> word_set g \<and> valid_guess U g (secret g)
       \<and> (\<exists>g'. turn U (secret g) g = Inr g' \<and> status g' = Won)"
proof -
  from reachable_consistent [OF assms] have c: "consistent U g" .
  then have mem: "secret g \<in> word_set g" and low: "lower U (secret g) = secret g"
    and v: "valid_guess U g (secret g)"
    by (auto simp: consistent_def valid_guess_def)
  from reachable_punctual [OF assms(2)] have "punctual g" .
  from turn_won [OF v low this] mem v show ?thesis
    by blast
qed

theorem secret_always_winnable_witness:
  "list_all (\<lambda>v. lower ascii v = v) (ex_top_n_list WORDS_SAMPLE)
   \<and> reachable ascii ex_top_n_list ex_zipf_frequency ex_game_new
   \<and> secret ex_game_new = lit ''alloy'' \<and> lit ''alloy'' \<in> word_set ex_game_new
   \<and> valid_guess ascii ex_game_new (lit ''alloy'')
   \<and> (\<exists>g'. turn ascii (lit ''alloy'') ex_game_new = Inr g' \<and> status g' = Won)"
proof -
  have l: "list_all (\<lambda>v. lower ascii v = v) (ex_top_n_list WORDS_SAMPLE)"
    by code_simp
  have s: "secret ex_game_new = lit ''alloy''"
    by code_simp
  from secret_always_winnable [OF ex_list_lower ex_game_new_reachable] l ex_game_new_reachable s
  show ?thesis
    by simp
qed

end
